theory Spec2Isabelle
  imports Main "HOL-Library.Sublist" "HOL-Library.AList"
begin

section \<open>Platform model: paths, the file system, errors\<close>

text \<open>
  \<^verbatim>\<open>management.py\<close> works on \<^verbatim>\<open>pathlib.Path\<close> objects and on the file system.
  An absolute path is the list of its components, root first; the root directory is \<open>[]\<close>.
  A path may have \<^verbatim>\<open>..\<close> components (pathlib keeps them); it has no \<^verbatim>\<open>.\<close> components
  (pathlib drops them). A file system is an association list from the locations of its
  entries to nodes, a location being a path without \<^verbatim>\<open>..\<close>. The root always exists and
  is a directory. Symbolic links, permissions and text encodings are outside the model;
  line endings are those of a POSIX system.
\<close>

type_synonym path = "string list"

datatype node = File string | Dir

type_synonym fs = "(path \<times> node) list"

text \<open>
  Every \<^verbatim>\<open>raise\<close> of the source and every exception of the platform calls it makes is a
  value of this type. \<open>ValidationError\<close> carries the message and the \<^verbatim>\<open>errors\<close> keyword
  argument. \<open>OSError\<close> stands for an \<^verbatim>\<open>OSError\<close> without a subclass of its own (a
  directory that cannot be removed).
\<close>

datatype error =
    ValidationError string "string list"
  | SkillError string
  | FileNotFoundError
  | FileExistsError
  | NotADirectoryError
  | IsADirectoryError
  | OSError
  | UnboundLocalError
  | AttributeError
  | TemplateError string

text \<open>The exceptions that come from the file system.\<close>

definition os_error :: "error \<Rightarrow> bool" where
  "os_error e \<longleftrightarrow>
     e \<in> {FileNotFoundError, FileExistsError, NotADirectoryError, IsADirectoryError, OSError}"

text \<open>The component that names the parent directory.\<close>

definition dotdot :: string where
  "dotdot = ''..''"

definition node_at :: "fs \<Rightarrow> path \<Rightarrow> node option" where
  "node_at fs q = (if q = [] then Some Dir else map_of fs q)"

text \<open>
  \<open>walk fs cur p\<close> follows the components of \<open>p\<close> from the location \<open>cur\<close>, as the
  operating system does: the current location must be a directory; \<^verbatim>\<open>..\<close> leads to its
  parent (the parent of the root is the root), any other component to the entry of
  that name, which must exist. A missing entry is \<open>FileNotFoundError\<close>, a regular file
  in the middle of the path is \<open>NotADirectoryError\<close>. The result is the location
  reached.
\<close>

fun walk :: "fs \<Rightarrow> path \<Rightarrow> path \<Rightarrow> error + path" where
  "walk fs cur [] = Inr cur"
| "walk fs cur (c # cs) =
     (case node_at fs cur of
        None \<Rightarrow> Inl FileNotFoundError
      | Some (File x) \<Rightarrow> Inl NotADirectoryError
      | Some Dir \<Rightarrow>
          if c = dotdot then walk fs (butlast cur) cs
          else (case node_at fs (cur @ [c]) of
                  None \<Rightarrow> Inl FileNotFoundError
                | Some n \<Rightarrow> walk fs (cur @ [c]) cs))"

text \<open>\<open>locate\<close>: the location that a path names and the node there; \<open>stat\<close>: the node.\<close>

definition locate :: "fs \<Rightarrow> path \<Rightarrow> error + path \<times> node" where
  "locate fs p =
     (case walk fs [] p of
        Inl e \<Rightarrow> Inl e
      | Inr q \<Rightarrow> (case node_at fs q of
                    None \<Rightarrow> Inl FileNotFoundError
                  | Some n \<Rightarrow> Inr (q, n)))"

definition stat :: "fs \<Rightarrow> path \<Rightarrow> error + node" where
  "stat fs p = (case locate fs p of Inl e \<Rightarrow> Inl e | Inr (q, n) \<Rightarrow> Inr n)"

text \<open>\<^verbatim>\<open>Path.exists\<close> and \<^verbatim>\<open>Path.is_dir\<close> answer False where the walk fails.\<close>

definition exists :: "fs \<Rightarrow> path \<Rightarrow> bool" where
  "exists fs p = (case stat fs p of Inl e \<Rightarrow> False | Inr n \<Rightarrow> True)"

definition is_dir :: "fs \<Rightarrow> path \<Rightarrow> bool" where
  "is_dir fs p = (case stat fs p of Inr Dir \<Rightarrow> True | _ \<Rightarrow> False)"

text \<open>
  \<^verbatim>\<open>Path.parent\<close> drops the last component, whatever it is; the parent of the root is
  the root.
\<close>

definition parent :: "path \<Rightarrow> path" where
  "parent p = butlast p"

text \<open>
  \<^verbatim>\<open>os.mkdir\<close>: the path up to the last component must lead to a directory, and the
  last component must not exist there (\<^verbatim>\<open>..\<close> always does).
\<close>

definition os_mkdir :: "fs \<Rightarrow> path \<Rightarrow> error + fs" where
  "os_mkdir fs p =
     (if p = [] then Inl FileExistsError
      else (case locate fs (parent p) of
              Inl e \<Rightarrow> Inl e
            | Inr (d, File x) \<Rightarrow> Inl NotADirectoryError
            | Inr (d, Dir) \<Rightarrow>
                if last p = dotdot then Inl FileExistsError
                else (case map_of fs (d @ [last p]) of
                        Some n \<Rightarrow> Inl FileExistsError
                      | None \<Rightarrow> Inr (AList.update (d @ [last p]) Dir fs))))"

text \<open>
  \<^verbatim>\<open>Path.mkdir(parents=False, exist_ok=True)\<close>: \<open>FileNotFoundError\<close> is raised again,
  any other error is dropped when the path is a directory.
\<close>

definition mkdir_exist_ok :: "fs \<Rightarrow> path \<Rightarrow> error option \<times> fs" where
  "mkdir_exist_ok fs p =
     (case os_mkdir fs p of
        Inr fs' \<Rightarrow> (None, fs')
      | Inl e \<Rightarrow> if e = FileNotFoundError then (Some e, fs)
                 else if is_dir fs p then (None, fs) else (Some e, fs))"

text \<open>
  \<^verbatim>\<open>Path.mkdir(parents=True, exist_ok=True)\<close>, as pathlib writes it: try \<^verbatim>\<open>os.mkdir\<close>;
  on \<open>FileNotFoundError\<close> make the parent the same way and then the directory itself
  without \<^verbatim>\<open>parents\<close>; on another error succeed when the path is a directory.
  The result is the exception raised, if any, and the file system left behind.
\<close>

function mkdir :: "fs \<Rightarrow> path \<Rightarrow> error option \<times> fs" where
  "mkdir fs p =
     (case os_mkdir fs p of
        Inr fs' \<Rightarrow> (None, fs')
      | Inl e \<Rightarrow>
          if e = FileNotFoundError then
            (if p = [] then (Some e, fs)
             else (case mkdir fs (parent p) of
                     (Some e', fs') \<Rightarrow> (Some e', fs')
                   | (None, fs') \<Rightarrow> mkdir_exist_ok fs' p))
          else if is_dir fs p then (None, fs) else (Some e, fs))"
  by pat_completeness auto
termination
  by (relation "measure (\<lambda>(fs, p). length p)") (auto simp: parent_def)

declare mkdir.simps [simp del]

text \<open>
  \<^verbatim>\<open>Path.write_text\<close> opens the file for writing: the path up to the last component
  must lead to a directory and the path itself must not name one; the file is created
  or its content replaced. The text is stored as it is given.
\<close>

definition write_text :: "fs \<Rightarrow> path \<Rightarrow> string \<Rightarrow> error + fs" where
  "write_text fs p content =
     (if p = [] then Inl IsADirectoryError
      else (case locate fs (parent p) of
              Inl e \<Rightarrow> Inl e
            | Inr (d, File x) \<Rightarrow> Inl NotADirectoryError
            | Inr (d, Dir) \<Rightarrow>
                if last p = dotdot then Inl IsADirectoryError
                else (case map_of fs (d @ [last p]) of
                        Some Dir \<Rightarrow> Inl IsADirectoryError
                      | _ \<Rightarrow> Inr (AList.update (d @ [last p]) (File content) fs))))"

text \<open>
  \<^verbatim>\<open>Path.read_text\<close> opens the file in text mode with universal newlines: a carriage
  return followed by a line feed, and a carriage return alone, are read as one newline.
\<close>

definition newline :: char where
  "newline = CHR 0x0A"

definition carriage_return :: char where
  "carriage_return = CHR 0x0D"

fun universal_newlines :: "string \<Rightarrow> string" where
  "universal_newlines [] = []"
| "universal_newlines [c] = (if c = carriage_return then [newline] else [c])"
| "universal_newlines (c # d # cs) =
     (if c = carriage_return then
        (if d = newline then newline # universal_newlines cs
         else newline # universal_newlines (d # cs))
      else c # universal_newlines (d # cs))"

definition read_text :: "fs \<Rightarrow> path \<Rightarrow> error + string" where
  "read_text fs p =
     (case stat fs p of
        Inl e \<Rightarrow> Inl e
      | Inr Dir \<Rightarrow> Inl IsADirectoryError
      | Inr (File c) \<Rightarrow> Inr (universal_newlines c))"

text \<open>
  \<^verbatim>\<open>shutil.rmtree\<close> removes what is in the directory that the path names and then the
  directory itself with \<^verbatim>\<open>os.rmdir\<close>. The last step fails for the root and for a path
  that ends in \<^verbatim>\<open>..\<close>: then the content is gone and \<open>OSError\<close> is raised. The result is
  the exception raised, if any, and the file system left behind.
\<close>

definition rmtree :: "fs \<Rightarrow> path \<Rightarrow> error option \<times> fs" where
  "rmtree fs p =
     (case locate fs p of
        Inl e \<Rightarrow> (Some e, fs)
      | Inr (d, File x) \<Rightarrow> (Some NotADirectoryError, fs)
      | Inr (d, Dir) \<Rightarrow>
          if d = [] \<or> (p \<noteq> [] \<and> last p = dotdot)
          then (Some OSError, filter (\<lambda>(q, n). \<not> strict_prefix d q) fs)
          else (None, filter (\<lambda>(q, n). \<not> prefix d q) fs))"

text \<open>
  \<^verbatim>\<open>Path.iterdir\<close>: the entries of the directory that the path names, each as the path
  followed by the entry's name, in the order the list stores them.
\<close>

definition iterdir :: "fs \<Rightarrow> path \<Rightarrow> error + path list" where
  "iterdir fs p =
     (case locate fs p of
        Inl e \<Rightarrow> Inl e
      | Inr (d, File x) \<Rightarrow> Inl NotADirectoryError
      | Inr (d, Dir) \<Rightarrow>
          Inr (map (\<lambda>c. p @ [c])
                 (remdups (map last (filter (\<lambda>q. q \<noteq> [] \<and> butlast q = d) (map fst fs))))))"

text \<open>
  A path string is split at \<^verbatim>\<open>/\<close>; pathlib drops empty components and \<^verbatim>\<open>.\<close>
  components and keeps \<^verbatim>\<open>..\<close>.
\<close>

fun split_slash :: "string \<Rightarrow> string list" where
  "split_slash [] = [[]]"
| "split_slash (c # cs) =
     (if c = CHR ''/'' then [] # split_slash cs
      else (case split_slash cs of
              [] \<Rightarrow> [[c]]
            | w # ws \<Rightarrow> (c # w) # ws))"

definition parse_parts :: "string \<Rightarrow> path" where
  "parse_parts s = filter (\<lambda>w. w \<noteq> [] \<and> w \<noteq> ''.'') (split_slash s)"

text \<open>
  \<^verbatim>\<open>Path.joinpath(base, s)\<close> for a string \<open>s\<close> that does not start with \<^verbatim>\<open>/\<close> (the source
  only joins strings that start with a dot, and \<^verbatim>\<open>SKILL.md\<close>).
\<close>

definition joinpath :: "path \<Rightarrow> string \<Rightarrow> path" where
  "joinpath base s = base @ parse_parts s"

text \<open>
  A configured directory may be relative. \<^verbatim>\<open>Path.resolve\<close> makes it absolute against the
  current directory and removes \<^verbatim>\<open>..\<close> components (the parent of the root is the root).
\<close>

datatype pure_path = Abs path | Rel path

fun collapse :: "path \<Rightarrow> path \<Rightarrow> path" where
  "collapse acc [] = acc"
| "collapse acc (c # cs) =
     (if c = dotdot then collapse (butlast acc) cs else collapse (acc @ [c]) cs)"

fun resolve :: "path \<Rightarrow> pure_path \<Rightarrow> path" where
  "resolve cwd (Abs p) = collapse [] p"
| "resolve cwd (Rel p) = collapse [] (cwd @ p)"

section \<open>Regular-expression substitution of the description line\<close>

text \<open>
  \<^verbatim>\<open>edit_skill\<close> calls
  \<^verbatim>\<open>re.sub(r'^description:\s*.*$', repl, initial_content, count=1, flags=re.MULTILINE)\<close>.
  With \<^verbatim>\<open>MULTILINE\<close>, \<^verbatim>\<open>^\<close> matches at the start of the text and after every newline.
  \<^verbatim>\<open>\s\<close> matches every whitespace character, the newline among them; \<^verbatim>\<open>.\<close> matches
  every character but the newline; \<^verbatim>\<open>$\<close> matches at the end of the text and before a
  newline. Both stars are greedy, and after them \<^verbatim>\<open>$\<close> always matches, so the match
  at a line that starts with \<^verbatim>\<open>description:\<close> is that prefix, the longest run of
  whitespace after it, and the rest of the line where that run ends.
\<close>

definition is_space :: "char \<Rightarrow> bool" where
  "is_space c = (c \<in> set [CHR 0x09, CHR 0x0A, CHR 0x0B, CHR 0x0C, CHR 0x0D, CHR 0x1C,
                            CHR 0x1D, CHR 0x1E, CHR 0x1F, CHR 0x20, CHR 0x85, CHR 0xA0])"

text \<open>
  \<open>search bol s\<close> is the leftmost match in \<open>s\<close>, where \<open>bol\<close> says whether \<open>s\<close> starts
  at the beginning of a line: the text before the match, the matched text, the text
  after it.
\<close>

fun search :: "bool \<Rightarrow> string \<Rightarrow> (string \<times> string \<times> string) option" where
  "search bol [] = None"
| "search bol (c # cs) =
     (if bol \<and> prefix ''description:'' (c # cs) then
        (let after = drop (length ''description:'') (c # cs);
             r = dropWhile is_space after
         in Some ([], ''description:'' @ takeWhile is_space after @ takeWhile (\<lambda>x. x \<noteq> newline) r,
                  dropWhile (\<lambda>x. x \<noteq> newline) r))
      else map_option (\<lambda>(pre, m, post). (c # pre, m, post)) (search (c = newline) cs))"

text \<open>
  A replacement string without a backslash is used literally. One with a backslash goes
  through the template compiler of \<^verbatim>\<open>re\<close> before the search starts (so its errors are
  raised whether or not a line matches); the compiler is a parameter, \<open>compile_repl\<close>,
  giving either the message of the exception it raises or the function from the matched
  text to its replacement.
\<close>

definition re_sub :: "(string \<Rightarrow> string + (string \<Rightarrow> string)) \<Rightarrow> string \<Rightarrow> string \<Rightarrow> error + string" where
  "re_sub compile_repl repl content =
     (case (if CHR 0x5C \<notin> set repl then Inr (\<lambda>m. repl) else compile_repl repl) of
        Inl msg \<Rightarrow> Inl (TemplateError msg)
      | Inr expand \<Rightarrow>
          (case search True content of
             None \<Rightarrow> Inr content
           | Some (pre, m, post) \<Rightarrow> Inr (pre @ expand m @ post)))"

text \<open>An f-string field formats \<^verbatim>\<open>None\<close> as the text \<^verbatim>\<open>None\<close> and a string as itself.\<close>

fun format_field :: "string option \<Rightarrow> string" where
  "format_field None = ''None''"
| "format_field (Some s) = s"

section \<open>Collaborators\<close>

text \<open>
  The modules \<^verbatim>\<open>validator\<close>, \<^verbatim>\<open>parser\<close> and \<^verbatim>\<open>utils\<close> are imported by
  \<^verbatim>\<open>management.py\<close>. What they supply is a parameter of every operation: the two
  validators (each returns the list of violations, empty when valid), the two agent
  registries, the template renderer; with them the process's current directory, the
  user's home directory and the template compiler of \<^verbatim>\<open>re\<close>.
  \<^verbatim>\<open>get_local_supporting_agents()\<close> is a dict from agent to a dict with the key
  \<^verbatim>\<open>config_dir\<close>, here an association list whose keys are distinct;
  \<^verbatim>\<open>load_supporting_agents()\<close> is a sequence of dicts with the keys \<^verbatim>\<open>name\<close> and
  \<^verbatim>\<open>skills_dir\<close>.
\<close>

record local_agent =
  config_dir :: pure_path

record supporting_agent =
  name :: string
  skills_dir :: string

record env =
  cwd :: path
  home :: path
  validate_name :: "string \<Rightarrow> string list"
  validate_description :: "string \<Rightarrow> string list"
  get_local_supporting_agents :: "(string \<times> local_agent) list"
  load_supporting_agents :: "supporting_agent list"
  build_skill_instructions_template :: "string \<Rightarrow> string \<Rightarrow> string"
  compile_repl :: "string \<Rightarrow> string + (string \<Rightarrow> string)"

text \<open>
  Line 37, the base root of an agent:
  \<^verbatim>\<open>Path.cwd() if project_level else Path.resolve(available_agents.get(agent).get('config_dir'))\<close>.
  \<^verbatim>\<open>get\<close> returns \<^verbatim>\<open>None\<close> for an agent that is not a key, and \<^verbatim>\<open>None.get\<close> raises.
\<close>

definition base_path :: "env \<Rightarrow> bool \<Rightarrow> string \<Rightarrow> error + path" where
  "base_path env project_level agent =
     (if project_level then Inr (cwd env)
      else (case map_of (get_local_supporting_agents env) agent of
              None \<Rightarrow> Inl AttributeError
            | Some info \<Rightarrow> Inr (resolve (cwd env) (config_dir info))))"

text \<open>Line 38, the directory of a skill for an agent, under the base root of line 37.\<close>

definition skill_dir :: "env \<Rightarrow> string \<Rightarrow> bool \<Rightarrow> string \<Rightarrow> error + path" where
  "skill_dir env skill_name project_level agent =
     (case base_path env project_level agent of
        Inl e \<Rightarrow> Inl e
      | Inr base \<Rightarrow> Inr (joinpath base (''.'' @ agent @ ''/skills/'' @ skill_name)))"

text \<open>Line 40, the definition file in a skill directory.\<close>

definition skill_md :: "path \<Rightarrow> path" where
  "skill_md dir = joinpath dir ''SKILL.md''"

text \<open>The two exceptions that the source raises (lines 25, 28 and 61; lines 64 and 101).\<close>

definition invalid :: "string list \<Rightarrow> error" where
  "invalid errors = ValidationError ''Invalid skill name'' errors"

definition not_found :: "string \<Rightarrow> error" where
  "not_found skill_name = SkillError (''Skill '' @ skill_name @ '', not found.'')"

text \<open>Line 74, the replacement string \<^verbatim>\<open>f'description: {description}'\<close>.\<close>

definition replacement :: "string option \<Rightarrow> string" where
  "replacement description = ''description: '' @ format_field description"

text \<open>
  Modelled from the spec: \<^verbatim>\<open>check_if_skill_exist\<close> of \<^verbatim>\<open>validator.py\<close>, which is not
  among the sources. The spec (4.1): for each registered agent, compute the expected
  \<^verbatim>\<open>SKILL.md\<close> path \<^verbatim>\<open><base>/.{agent}/skills/{name}/SKILL.md\<close> under that agent's skill
  directory for the given scope and report it if the path currently exists on disk; the
  result is a mapping from agent to path, empty (falsy) if no agent has a matching file.
  The base is the one of \<^verbatim>\<open>create_skill\<close> (spec 6): the current directory for the
  project scope, the agent's configured directory otherwise.
\<close>

definition check_if_skill_exist :: "env \<Rightarrow> fs \<Rightarrow> string \<Rightarrow> bool \<Rightarrow> (string \<times> path) list" where
  "check_if_skill_exist env fs skill_name project_level =
     concat (map (\<lambda>agent.
        case skill_dir env skill_name project_level agent of
          Inl e \<Rightarrow> []
        | Inr dir \<Rightarrow>
            (let skill_file = skill_md dir
             in if exists fs skill_file then [(agent, skill_file)] else []))
       (map fst (get_local_supporting_agents env)))"

section \<open>The skill lifecycle manager\<close>

subsection \<open>create\_skill\<close>

text \<open>
  A value of the mapping that \<^verbatim>\<open>create_skill\<close> returns: the path that the resolver
  reports for an agent, or the dict \<^verbatim>\<open>{'agent': agent, 'file': skill_file}\<close> that the
  creation loop stores.
\<close>

datatype skill_value = SkillPath (file_of: path) | SkillInfo string (file_of: path)

text \<open>
  The loop of lines 36 to 43 (lines 37 and 38 are \<open>skill_dir\<close>) over the keys of
  \<^verbatim>\<open>available_agents\<close>, threading
  \<^verbatim>\<open>created_files\<close> and the file system. An exception ends the loop and leaves the
  file system as it is at that point.
\<close>

fun create_loop ::
  "env \<Rightarrow> string \<Rightarrow> string \<Rightarrow> bool \<Rightarrow> string list \<Rightarrow> (string \<times> skill_value) list \<Rightarrow> fs
     \<Rightarrow> (error + (string \<times> skill_value) list) \<times> fs" where
  "create_loop env skill_name skill_description project_level [] created_files fs =
     (Inr created_files, fs)"
| "create_loop env skill_name skill_description project_level (agent # agents) created_files fs =
     (case skill_dir env skill_name project_level agent of
        Inl e \<Rightarrow> (Inl e, fs)
      | Inr dir \<Rightarrow>
          (case mkdir fs dir of
             (Some e, fs1) \<Rightarrow> (Inl e, fs1)
           | (None, fs1) \<Rightarrow>
               (let skill_file = skill_md dir;
                    content = build_skill_instructions_template env skill_name skill_description in
                case write_text fs1 skill_file content of
                  Inl e \<Rightarrow> (Inl e, fs1)
                | Inr fs2 \<Rightarrow>
                    create_loop env skill_name skill_description project_level agents
                      (AList.update agent (SkillInfo agent skill_file) created_files) fs2)))"

definition create_skill ::
  "env \<Rightarrow> fs \<Rightarrow> string \<Rightarrow> string \<Rightarrow> bool \<Rightarrow> (error + (string \<times> skill_value) list) \<times> fs" where
  "create_skill env fs skill_name skill_description project_level =
     (if validate_name env skill_name \<noteq> [] then
        (Inl (invalid (validate_name env skill_name)), fs)
      else if validate_description env skill_name \<noteq> [] then
        (Inl (invalid (validate_description env skill_name)), fs)
      else (let skill_info = check_if_skill_exist env fs skill_name project_level in
        if skill_info \<noteq> [] then (Inr (map (\<lambda>(agent, p). (agent, SkillPath p)) skill_info), fs)
        else create_loop env skill_name skill_description project_level
               (map fst (get_local_supporting_agents env)) [] fs))"

subsection \<open>edit\_skill\<close>

text \<open>
  Lines 66 to 69: the value of the first agent of the mapping whose value is truthy;
  \<^verbatim>\<open>skill_file\<close> stays unbound when there is none. A path is truthy, \<^verbatim>\<open>None\<close> (what
  \<^verbatim>\<open>get\<close> returns for a missing key) is not.
\<close>

fun first_skill_file :: "(string \<times> path) list \<Rightarrow> string list \<Rightarrow> path option" where
  "first_skill_file skill_files [] = None"
| "first_skill_file skill_files (agent # agents) =
     (case map_of skill_files agent of
        Some skill_file \<Rightarrow> Some skill_file
      | None \<Rightarrow> first_skill_file skill_files agents)"

text \<open>Lines 80 to 84: the edited content is written to the file of every agent.\<close>

fun edit_loop :: "(string \<times> path) list \<Rightarrow> string \<Rightarrow> string list \<Rightarrow> fs \<Rightarrow> error option \<times> fs" where
  "edit_loop skill_files edited_content [] fs = (None, fs)"
| "edit_loop skill_files edited_content (agent # agents) fs =
     (case map_of skill_files agent of
        None \<Rightarrow> edit_loop skill_files edited_content agents fs
      | Some skill_file \<Rightarrow>
          (case write_text fs skill_file edited_content of
             Inl e \<Rightarrow> (Some e, fs)
           | Inr fs' \<Rightarrow> edit_loop skill_files edited_content agents fs'))"

text \<open>The parameter \<^verbatim>\<open>description\<close> defaults to \<^verbatim>\<open>None\<close>: it is a \<open>string option\<close>.\<close>

definition edit_skill :: "env \<Rightarrow> fs \<Rightarrow> string \<Rightarrow> string option \<Rightarrow> bool \<Rightarrow> (error + bool) \<times> fs" where
  "edit_skill env fs skill_name description project_level =
     (if validate_description env skill_name \<noteq> [] then
        (Inl (invalid (validate_description env skill_name)), fs)
      else (let skill_files = check_if_skill_exist env fs skill_name project_level in
        if skill_files = [] then (Inl (not_found skill_name), fs)
        else (case first_skill_file skill_files (map fst skill_files) of
                None \<Rightarrow> (Inl UnboundLocalError, fs)
              | Some skill_file \<Rightarrow>
                  (case read_text fs skill_file of
                     Inl e \<Rightarrow> (Inl e, fs)
                   | Inr initial_content \<Rightarrow>
                       (case re_sub (compile_repl env) (replacement description)
                               initial_content of
                          Inl e \<Rightarrow> (Inl e, fs)
                        | Inr edited_content \<Rightarrow>
                            (case edit_loop skill_files edited_content (map fst skill_files) fs of
                               (Some e, fs') \<Rightarrow> (Inl e, fs')
                             | (None, fs') \<Rightarrow> (Inr True, fs')))))))"

subsection \<open>delete\_skill\<close>

text \<open>
  The loop of lines 103 to 106. An exception ends it and leaves the file system as it
  is at that point.
\<close>

fun delete_loop :: "(string \<times> path) list \<Rightarrow> string list \<Rightarrow> fs \<Rightarrow> error option \<times> fs" where
  "delete_loop skill_files [] fs = (None, fs)"
| "delete_loop skill_files (agent # agents) fs =
     (case map_of skill_files agent of
        None \<Rightarrow> delete_loop skill_files agents fs
      | Some skill_file \<Rightarrow>
          (case rmtree fs (parent skill_file) of
             (Some e, fs') \<Rightarrow> (Some e, fs')
           | (None, fs') \<Rightarrow> delete_loop skill_files agents fs'))"

definition delete_skill :: "env \<Rightarrow> fs \<Rightarrow> string \<Rightarrow> bool \<Rightarrow> (error + bool) \<times> fs" where
  "delete_skill env fs skill_name project_level =
     (let skill_files = check_if_skill_exist env fs skill_name project_level in
      if skill_files = [] then (Inl (not_found skill_name), fs)
      else (case delete_loop skill_files (map fst skill_files) fs of
              (Some e, fs') \<Rightarrow> (Inl e, fs')
            | (None, fs') \<Rightarrow> (Inr True, fs')))"

subsection \<open>list\_skills\<close>

text \<open>
  Line 125 tests the truth value of the resolved \<^verbatim>\<open>Path\<close> object. \<^verbatim>\<open>Path\<close> defines
  neither \<^verbatim>\<open>__bool__\<close> nor \<^verbatim>\<open>__len__\<close>, so every path is truthy, whether or not it
  exists on disk.
\<close>

definition truthy :: "path \<Rightarrow> bool" where
  "truthy p = True"

text \<open>
  The loop of lines 123 to 128. The path string \<^verbatim>\<open>f'{base_path}/{skills_dir}'\<close> parses
  to the components of the base followed by those of \<open>skills_dir\<close>. Listing reads
  the file system and does not change it.
\<close>

fun list_loop ::
  "env \<Rightarrow> fs \<Rightarrow> path \<Rightarrow> supporting_agent list \<Rightarrow> (string \<times> path list) list
     \<Rightarrow> error + (string \<times> path list) list" where
  "list_loop env fs base [] skills = Inr skills"
| "list_loop env fs base (supported_agent # agents) skills =
     (let agent_path = resolve (cwd env) (Abs (base @ parse_parts (skills_dir supported_agent))) in
      if truthy agent_path then
        (case iterdir fs agent_path of
           Inl e \<Rightarrow> Inl e
         | Inr entries \<Rightarrow>
             list_loop env fs base agents
               (skills @ [(name supported_agent, filter (is_dir fs) entries)]))
      else list_loop env fs base agents skills)"

definition list_skills :: "env \<Rightarrow> fs \<Rightarrow> bool \<Rightarrow> error + (string \<times> path list) list" where
  "list_skills env fs project_level =
     (let base = (if project_level then cwd env else home env) in
      list_loop env fs base (load_supporting_agents env) [])"


section \<open>A sample configuration\<close>

text \<open>
  Modelled from the spec: the validators of \<^verbatim>\<open>validator.py\<close>, which are not among the
  sources. The spec says that each returns the list of violations, empty for a valid
  input, and names two invalid names: one with a path separator and the empty string.
  The sample description validator rejects the empty string and, as a stand-in for a
  length limit, a string of more than 20 characters.
\<close>

definition demo_validate_name :: "string \<Rightarrow> string list" where
  "demo_validate_name s =
     (if s = [] \<or> CHR ''/'' \<in> set s then [''name must be non-empty without separators''] else [])"

definition demo_validate_description :: "string \<Rightarrow> string list" where
  "demo_validate_description s =
     (if s = [] then [''description must be non-empty'']
      else if length s > 20 then [''description is too long'']
      else [])"

text \<open>
  Two agents; the first one's configured directory is the home directory, the second
  one's is relative. The sample template has a \<^verbatim>\<open>description:\<close> line, as the spec
  requires of the renderer.
\<close>

definition demo_template :: "string \<Rightarrow> string \<Rightarrow> string" where
  "demo_template n d =
     ''---\<newline>name: '' @ n @ ''\<newline>description: '' @ d @ ''\<newline>---\<newline>''"

definition demo_env :: env where
  "demo_env =
     \<lparr> cwd = [''work'', ''proj''],
       home = [''home'', ''user''],
       validate_name = demo_validate_name,
       validate_description = demo_validate_description,
       get_local_supporting_agents =
         [(''claude'', \<lparr>config_dir = Abs [''home'', ''user'']\<rparr>),
          (''codex'', \<lparr>config_dir = Rel [''cfg'']\<rparr>)],
       load_supporting_agents =
         [\<lparr>name = ''claude'', skills_dir = ''.claude/skills''\<rparr>,
          \<lparr>name = ''codex'', skills_dir = ''.codex/skills''\<rparr>],
       build_skill_instructions_template = demo_template,
       compile_repl = (\<lambda>r. Inl ''bad escape'') \<rparr>"

text \<open>A file system with the project and home directories and no skill.\<close>

definition demo_fs :: fs where
  "demo_fs =
     [([''work''], Dir), ([''work'', ''proj''], Dir),
      ([''home''], Dir), ([''home'', ''user''], Dir)]"

text \<open>
  The same with the skill \<^verbatim>\<open>demo\<close> of the agent \<^verbatim>\<open>claude\<close> in the project, its file
  holding the given text; the other agent has no directory.
\<close>

definition demo_fs_skill :: "string \<Rightarrow> fs" where
  "demo_fs_skill content =
     demo_fs @
     [([''work'', ''proj'', ''.claude''], Dir),
      ([''work'', ''proj'', ''.claude'', ''skills''], Dir),
      ([''work'', ''proj'', ''.claude'', ''skills'', ''demo''], Dir),
      ([''work'', ''proj'', ''.claude'', ''skills'', ''demo'', ''SKILL.md''], File content)]"

text \<open>Both agents have the skill in the project, with files of different content.\<close>

definition demo_fs_two :: "string \<Rightarrow> string \<Rightarrow> fs" where
  "demo_fs_two content1 content2 =
     demo_fs_skill content1 @
     [([''work'', ''proj'', ''.codex''], Dir),
      ([''work'', ''proj'', ''.codex'', ''skills''], Dir),
      ([''work'', ''proj'', ''.codex'', ''skills'', ''demo''], Dir),
      ([''work'', ''proj'', ''.codex'', ''skills'', ''demo'', ''SKILL.md''], File content2)]"

text \<open>Both agents have a skills directory in the project, the second one's is empty.\<close>

definition demo_fs_dirs :: fs where
  "demo_fs_dirs =
     demo_fs_skill (demo_template ''demo'' ''Does things'') @
     [([''work'', ''proj'', ''.codex''], Dir),
      ([''work'', ''proj'', ''.codex'', ''skills''], Dir)]"

text \<open>The home directory with a skills directory for each agent, one skill in the first.\<close>

definition demo_fs_home :: fs where
  "demo_fs_home =
     demo_fs @
     [([''home'', ''user'', ''.claude''], Dir),
      ([''home'', ''user'', ''.claude'', ''skills''], Dir),
      ([''home'', ''user'', ''.claude'', ''skills'', ''demo''], Dir),
      ([''home'', ''user'', ''.claude'', ''skills'', ''notes.txt''], File ''not a skill''),
      ([''home'', ''user'', ''.codex''], Dir),
      ([''home'', ''user'', ''.codex'', ''skills''], Dir)]"




section \<open>Properties of the file system operations\<close>

lemma node_at_Nil [simp]: "node_at fs [] = Some Dir"
  by (simp add: node_at_def)

lemma node_at_nonempty: "q \<noteq> [] \<Longrightarrow> node_at fs q = map_of fs q"
  by (simp add: node_at_def)

lemma node_at_update:
  "q \<noteq> [] \<Longrightarrow> node_at (AList.update q v fs) r = (if r = q then Some v else node_at fs r)"
  by (simp add: node_at_def update_conv')

lemma walk_Cons_Inr:
  assumes "walk fs cur (c # cs) = Inr t"
  shows "node_at fs cur = Some Dir"
    and "c = dotdot \<Longrightarrow> walk fs (butlast cur) cs = Inr t"
    and "c \<noteq> dotdot \<Longrightarrow> node_at fs (cur @ [c]) \<noteq> None \<and> walk fs (cur @ [c]) cs = Inr t"
  using assms by (auto split: option.splits node.splits if_splits)

lemma walk_Cons_Dir:
  "node_at fs cur = Some Dir \<Longrightarrow>
   walk fs cur (c # cs) =
     (if c = dotdot then walk fs (butlast cur) cs
      else (case node_at fs (cur @ [c]) of
              None \<Rightarrow> Inl FileNotFoundError
            | Some n \<Rightarrow> walk fs (cur @ [c]) cs))"
  by simp

lemma walk_append:
  "walk fs cur (p1 @ p2) = (case walk fs cur p1 of Inl e \<Rightarrow> Inl e | Inr t \<Rightarrow> walk fs t p2)"
  by (induction p1 arbitrary: cur) (simp_all split: option.splits node.splits)

lemma walk_update:
  assumes "node_at fs q \<noteq> Some Dir" "q \<noteq> []"
  shows "walk fs cur p = Inr t \<Longrightarrow> walk (AList.update q v fs) cur p = Inr t"
proof (induction p arbitrary: cur)
  case Nil
  then show ?case by simp
next
  case (Cons c cs)
  note w = walk_Cons_Inr [OF Cons.prems]
  have "cur \<noteq> q" using w(1) assms(1) by auto
  then have d: "node_at (AList.update q v fs) cur = Some Dir"
    using w(1) assms(2) by (simp add: node_at_update)
  show ?case
  proof (cases "c = dotdot")
    case True
    then show ?thesis using Cons.IH [OF w(2)] d by (simp add: walk_Cons_Dir)
  next
    case False
    then have "node_at (AList.update q v fs) (cur @ [c]) \<noteq> None"
      using w(3) assms(2) by (simp add: node_at_update)
    then show ?thesis using Cons.IH w(3) False d by (auto simp: walk_Cons_Dir)
  qed
qed

lemma strict_prefix_butlast: "d \<noteq> [] \<Longrightarrow> strict_prefix (butlast d) d"
proof -
  assume "d \<noteq> []"
  then have "d = butlast d @ [last d]" by simp
  then show ?thesis by (metis strict_prefixI' append_Nil2)
qed

lemma walk_dirs_above:
  "walk fs cur p = Inr t \<Longrightarrow> (\<forall>r. strict_prefix r cur \<longrightarrow> node_at fs r = Some Dir) \<Longrightarrow>
   (\<forall>r. strict_prefix r t \<longrightarrow> node_at fs r = Some Dir)"
proof (induction p arbitrary: cur)
  case Nil
  then show ?case by simp
next
  case (Cons c cs)
  note w = walk_Cons_Inr [OF Cons.prems(1)]
  show ?case
  proof (cases "c = dotdot")
    case True
    have "\<forall>r. strict_prefix r (butlast cur) \<longrightarrow> node_at fs r = Some Dir"
      using Cons.prems(2) prefixeq_butlast [of cur] by (meson prefix_order.strict_trans2)
    then show ?thesis using Cons.IH [OF w(2) [OF True]] by blast
  next
    case False
    have "\<forall>r. strict_prefix r (cur @ [c]) \<longrightarrow> node_at fs r = Some Dir"
      using Cons.prems(2) w(1) by (auto simp: strict_prefix_def prefix_snoc)
    then show ?thesis using Cons.IH w(3) False by blast
  qed
qed

lemma locate_Inr:
  "locate fs p = Inr (t, n) \<longleftrightarrow> walk fs [] p = Inr t \<and> node_at fs t = Some n"
  by (auto simp: locate_def split: sum.splits option.splits)

lemma stat_Inr: "stat fs p = Inr n \<longleftrightarrow> (\<exists>t. locate fs p = Inr (t, n))"
  by (auto simp: stat_def split: sum.splits)

lemma stat_Nil [simp]: "stat fs [] = Inr Dir"
  by (simp add: stat_def locate_def)

lemma exists_stat: "exists fs p \<longleftrightarrow> (\<exists>n. stat fs p = Inr n)"
  by (cases "stat fs p") (simp_all add: exists_def)

lemma locate_update:
  assumes "node_at fs q \<noteq> Some Dir" "q \<noteq> []" "locate fs p = Inr (t, n)"
  shows "locate (AList.update q v fs) p = Inr (t, if t = q then v else n)"
  using assms walk_update [OF assms(1,2), of "[]" p t v]
  by (simp add: locate_Inr node_at_update)

lemma os_mkdir_Inr:
  assumes "os_mkdir fs p = Inr fs'"
  obtains q where "q \<noteq> []" "node_at fs q = None" "fs' = AList.update q Dir fs"
proof -
  from assms obtain d where "map_of fs (d @ [last p]) = None"
    "fs' = AList.update (d @ [last p]) Dir fs"
    by (auto simp: os_mkdir_def split: if_splits sum.splits node.splits option.splits prod.splits)
  then show ?thesis using that [of "d @ [last p]"] by (simp add: node_at_def)
qed

lemma os_mkdir_preserves:
  assumes "os_mkdir fs q = Inr fs'" "stat fs p = Inr n"
  shows "stat fs' p = Inr n"
proof -
  obtain q' where q: "q' \<noteq> []" "node_at fs q' = None" "fs' = AList.update q' Dir fs"
    using assms(1) by (rule os_mkdir_Inr)
  obtain t where t: "locate fs p = Inr (t, n)" using assms(2) by (auto simp: stat_Inr)
  then have "t \<noteq> q'" using q(2) by (auto simp: locate_Inr)
  moreover have "node_at fs q' \<noteq> Some Dir" using q(2) by simp
  ultimately have "locate fs' p = Inr (t, n)"
    using locate_update [OF _ q(1) t, of Dir] q(3) by simp
  then show ?thesis by (auto simp: stat_Inr)
qed

lemma write_text_Inr:
  assumes "write_text fs p c = Inr fs'"
  obtains d where "p \<noteq> []" "locate fs (parent p) = Inr (d, Dir)" "last p \<noteq> dotdot"
    "node_at fs (d @ [last p]) \<noteq> Some Dir" "fs' = AList.update (d @ [last p]) (File c) fs"
proof -
  from assms obtain d where "p \<noteq> []" "locate fs (parent p) = Inr (d, Dir)" "last p \<noteq> dotdot"
    "map_of fs (d @ [last p]) \<noteq> Some Dir" "fs' = AList.update (d @ [last p]) (File c) fs"
    by (auto simp: write_text_def split: if_splits sum.splits node.splits option.splits prod.splits)
  then show ?thesis using that [of d] by (simp add: node_at_def)
qed

lemma write_text_stat:
  assumes "write_text fs q c = Inr fs'" "stat fs p = Inr n"
  shows "stat fs' p = Inr n \<or> (\<exists>x. n = File x \<and> stat fs' p = Inr (File c))"
proof -
  obtain d where w: "node_at fs (d @ [last q]) \<noteq> Some Dir"
    "fs' = AList.update (d @ [last q]) (File c) fs"
    using assms(1) by (rule write_text_Inr)
  obtain t where t: "locate fs p = Inr (t, n)" using assms(2) by (auto simp: stat_Inr)
  have l: "locate fs' p = Inr (t, if t = d @ [last q] then File c else n)"
    using locate_update [OF w(1) _ t, of "File c"] w(2) by simp
  show ?thesis
  proof (cases "t = d @ [last q]")
    case True
    then have "n \<noteq> Dir" using t w(1) by (auto simp: locate_Inr)
    then obtain x where "n = File x" by (cases n) auto
    then show ?thesis using l True by (auto simp: stat_Inr)
  next
    case False
    then show ?thesis using l by (auto simp: stat_Inr)
  qed
qed

lemma write_text_keeps:
  "write_text fs q c = Inr fs' \<Longrightarrow> stat fs p = Inr (File c) \<Longrightarrow> stat fs' p = Inr (File c)"
  using write_text_stat by blast

lemma write_text_file:
  "write_text fs q c = Inr fs' \<Longrightarrow> stat fs p = Inr (File x) \<Longrightarrow> \<exists>y. stat fs' p = Inr (File y)"
  using write_text_stat by blast

lemma write_text_exists:
  assumes "write_text fs q c = Inr fs'" "exists fs p"
  shows "exists fs' p"
proof -
  obtain n where "stat fs p = Inr n" using assms(2) by (auto simp: exists_stat)
  then have "stat fs' p = Inr n \<or> (\<exists>x. n = File x \<and> stat fs' p = Inr (File c))"
    using assms(1) by (rule write_text_stat [rotated])
  then show ?thesis by (auto simp: exists_stat)
qed

lemma write_text_same:
  assumes "write_text fs p c = Inr fs'"
  shows "stat fs' p = Inr (File c)"
proof -
  obtain d where w: "p \<noteq> []" "locate fs (parent p) = Inr (d, Dir)" "last p \<noteq> dotdot"
    "node_at fs (d @ [last p]) \<noteq> Some Dir" "fs' = AList.update (d @ [last p]) (File c) fs"
    using assms by (rule write_text_Inr)
  have "d \<noteq> d @ [last p]" by simp
  then have "locate fs' (parent p) = Inr (d, Dir)"
    using locate_update [OF w(4) _ w(2), of "File c"] w(5) by simp
  then have a: "walk fs' [] (parent p) = Inr d" "node_at fs' d = Some Dir"
    by (simp_all add: locate_Inr)
  have n: "node_at fs' (d @ [last p]) = Some (File c)"
    using w(5) by (simp add: node_at_update)
  have "p = parent p @ [last p]" using w(1) by (simp add: parent_def)
  then have "walk fs' [] p = walk fs' d [last p]"
    using walk_append [of fs' "[]" "parent p" "[last p]"] a(1) by simp
  also have "\<dots> = Inr (d @ [last p])"
    using a(2) w(3) n by (simp add: walk_Cons_Dir)
  finally show ?thesis using n by (auto simp: stat_Inr locate_Inr)
qed

lemma write_text_file_ok:
  assumes "stat fs p = Inr (File x)"
  shows "\<exists>fs'. write_text fs p c = Inr fs'"
proof -
  have p: "p \<noteq> []" using assms by auto
  obtain t where t: "walk fs [] p = Inr t" "node_at fs t = Some (File x)"
    using assms by (auto simp: stat_Inr locate_Inr)
  have "p = parent p @ [last p]" using p by (simp add: parent_def)
  then have "walk fs [] p =
      (case walk fs [] (parent p) of Inl e \<Rightarrow> Inl e | Inr d \<Rightarrow> walk fs d [last p])"
    using walk_append [of fs "[]" "parent p" "[last p]"] by simp
  then obtain d where d: "walk fs [] (parent p) = Inr d" "walk fs d [last p] = Inr t"
    using t(1) by (cases "walk fs [] (parent p)") simp_all
  note w = walk_Cons_Inr [OF d(2)]
  have above: "\<forall>r. strict_prefix r d \<longrightarrow> node_at fs r = Some Dir"
    using walk_dirs_above [OF d(1)] by simp
  have nd: "last p \<noteq> dotdot"
  proof
    assume dd: "last p = dotdot"
    then have tb: "t = butlast d" using w(2) by simp
    show False
    proof (cases "d = []")
      case True
      then show ?thesis using tb t(2) by simp
    next
      case False
      then have "strict_prefix (butlast d) d"
        by (rule strict_prefix_butlast)
      then show ?thesis using above tb t(2) by auto
    qed
  qed
  then have "t = d @ [last p]" using w(3) by simp
  then have "map_of fs (d @ [last p]) = Some (File x)" using t(2) by (simp add: node_at_def)
  moreover have "locate fs (parent p) = Inr (d, Dir)" using d(1) w(1) by (simp add: locate_Inr)
  ultimately show ?thesis using p nd by (simp add: write_text_def)
qed

lemma mkdir_exist_ok_preserves:
  "mkdir_exist_ok fs q = (r, fs') \<Longrightarrow> stat fs p = Inr n \<Longrightarrow> stat fs' p = Inr n"
  by (auto simp: mkdir_exist_ok_def split: sum.splits if_splits dest: os_mkdir_preserves)

lemma mkdir_preserves:
  "mkdir fs q = (r, fs') \<Longrightarrow> stat fs p = Inr n \<Longrightarrow> stat fs' p = Inr n"
proof (induction fs q arbitrary: r fs' rule: mkdir.induct)
  case (1 fs q)
  show ?case
  proof (cases "os_mkdir fs q")
    case (Inr fs1)
    then show ?thesis using "1.prems" os_mkdir_preserves by (subst (asm) mkdir.simps) auto
  next
    case (Inl e)
    show ?thesis
    proof (cases "e = FileNotFoundError \<and> q \<noteq> []")
      case False
      then show ?thesis using "1.prems" Inl by (subst (asm) mkdir.simps) (auto split: if_splits)
    next
      case True
      obtain r1 fs1 where m: "mkdir fs (parent q) = (r1, fs1)" by (cases "mkdir fs (parent q)")
      have s1: "stat fs1 p = Inr n"
        using "1.IH" [OF Inl _ _ m "1.prems"(2)] True by simp
      show ?thesis
      proof (cases r1)
        case None
        then have "mkdir_exist_ok fs1 q = (r, fs')"
          using "1.prems"(1) Inl True m by (subst (asm) mkdir.simps) simp
        then show ?thesis using s1 mkdir_exist_ok_preserves by blast
      next
        case (Some e1)
        then have "fs' = fs1"
          using "1.prems"(1) Inl True m by (subst (asm) mkdir.simps) simp
        then show ?thesis using s1 by simp
      qed
    qed
  qed
qed

lemma mkdir_exists: "mkdir fs q = (r, fs') \<Longrightarrow> exists fs p \<Longrightarrow> exists fs' p"
  using mkdir_preserves by (auto simp: exists_stat)

lemma read_text_stat:
  "read_text fs p = Inr c \<longleftrightarrow> (\<exists>x. stat fs p = Inr (File x) \<and> c = universal_newlines x)"
  by (auto simp: read_text_def split: sum.splits node.splits)

lemma read_text_file: "(\<exists>c. read_text fs p = Inr c) \<longleftrightarrow> (\<exists>x. stat fs p = Inr (File x))"
  by (auto simp: read_text_stat)

section \<open>Properties of the resolver and of the loops\<close>

lemma in_case_singleton:
  "(a, p) \<in> set (case s b of Inl e \<Rightarrow> [] | Inr d \<Rightarrow> (if P (f d) then [(b, f d)] else [])) \<longleftrightarrow>
     b = a \<and> (\<exists>d. s a = Inr d \<and> p = f d \<and> P p)"
  by (cases "s b") auto

lemma check_set:
  "(a, p) \<in> set (check_if_skill_exist env fs n pl) \<longleftrightarrow>
     a \<in> fst ` set (get_local_supporting_agents env) \<and>
     (\<exists>d. skill_dir env n pl a = Inr d \<and> p = skill_md d \<and> exists fs p)"
proof -
  have "(a, p) \<in> set (check_if_skill_exist env fs n pl) \<longleftrightarrow>
          (\<exists>b \<in> fst ` set (get_local_supporting_agents env).
             (a, p) \<in> set (case skill_dir env n pl b of Inl e \<Rightarrow> []
                | Inr d \<Rightarrow> (if exists fs (skill_md d) then [(b, skill_md d)] else [])))"
    unfolding check_if_skill_exist_def Let_def set_concat set_map by blast
  also have "\<dots> \<longleftrightarrow> (\<exists>b \<in> fst ` set (get_local_supporting_agents env).
      b = a \<and> (\<exists>d. skill_dir env n pl a = Inr d \<and> p = skill_md d \<and> exists fs p))"
    unfolding in_case_singleton [where s = "skill_dir env n pl" and P = "exists fs" and f = skill_md] ..
  also have "\<dots> \<longleftrightarrow> a \<in> fst ` set (get_local_supporting_agents env) \<and>
     (\<exists>d. skill_dir env n pl a = Inr d \<and> p = skill_md d \<and> exists fs p)"
    by blast
  finally show ?thesis .
qed

lemma check_map_of:
  assumes "(a, p) \<in> set (check_if_skill_exist env fs n pl)"
  shows "map_of (check_if_skill_exist env fs n pl) a = Some p"
proof -
  have "a \<in> fst ` set (check_if_skill_exist env fs n pl)"
    using assms by force
  then have "map_of (check_if_skill_exist env fs n pl) a \<noteq> None"
    by (simp add: map_of_eq_None_iff)
  then obtain p' where p': "map_of (check_if_skill_exist env fs n pl) a = Some p'"
    by blast
  then have "(a, p') \<in> set (check_if_skill_exist env fs n pl)"
    by (rule map_of_SomeD)
  then have "p' = p" using assms by (auto simp: check_set)
  then show ?thesis using p' by simp
qed

lemma edit_loop_keeps:
  "edit_loop sf c agents fs = (r, fs') \<Longrightarrow> stat fs p = Inr (File c) \<Longrightarrow> stat fs' p = Inr (File c)"
proof (induction agents arbitrary: fs)
  case Nil
  then show ?case by simp
next
  case (Cons a agents)
  show ?case
  proof (cases "map_of sf a")
    case None
    then show ?thesis using Cons by simp
  next
    case (Some q)
    show ?thesis
    proof (cases "write_text fs q c")
      case (Inl e)
      then show ?thesis using Cons.prems Some by simp
    next
      case (Inr fs1)
      have "stat fs1 p = Inr (File c)"
        using write_text_keeps [OF Inr Cons.prems(2)] .
      moreover have "edit_loop sf c agents fs1 = (r, fs')"
        using Cons.prems(1) Some Inr by simp
      ultimately show ?thesis using Cons.IH by blast
    qed
  qed
qed

lemma edit_loop_written:
  "edit_loop sf c agents fs = (None, fs') \<Longrightarrow> a \<in> set agents \<Longrightarrow> map_of sf a = Some p \<Longrightarrow>
   stat fs' p = Inr (File c)"
proof (induction agents arbitrary: fs)
  case Nil
  then show ?case by simp
next
  case (Cons b agents)
  show ?case
  proof (cases "map_of sf b")
    case None
    then have "a \<noteq> b" using Cons.prems(3) by auto
    then show ?thesis using Cons None by simp
  next
    case (Some q)
    show ?thesis
    proof (cases "write_text fs q c")
      case (Inl e)
      then show ?thesis using Cons.prems Some by simp
    next
      case (Inr fs1)
      have rest: "edit_loop sf c agents fs1 = (None, fs')"
        using Cons.prems(1) Some Inr by simp
      show ?thesis
      proof (cases "a = b")
        case True
        then have "q = p" using Some Cons.prems(3) by simp
        then have "stat fs1 p = Inr (File c)" using write_text_same [OF Inr] by simp
        then show ?thesis using edit_loop_keeps [OF rest] by blast
      next
        case False
        then show ?thesis using Cons.IH [OF rest] Cons.prems(2,3) by simp
      qed
    qed
  qed
qed

lemma edit_loop_total:
  "(\<And>a p. a \<in> set agents \<Longrightarrow> map_of sf a = Some p \<Longrightarrow> \<exists>x. stat fs p = Inr (File x)) \<Longrightarrow>
   \<exists>fs'. edit_loop sf c agents fs = (None, fs')"
proof (induction agents arbitrary: fs)
  case Nil
  then show ?case by simp
next
  case (Cons b agents)
  show ?case
  proof (cases "map_of sf b")
    case None
    have "\<exists>fs'. edit_loop sf c agents fs = (None, fs')"
    proof (rule Cons.IH)
      fix a p assume "a \<in> set agents" "map_of sf a = Some p"
      then show "\<exists>x. stat fs p = Inr (File x)" using Cons.prems [of a p] by simp
    qed
    then show ?thesis using None by simp
  next
    case (Some q)
    obtain x where "stat fs q = Inr (File x)" using Cons.prems [of b q] Some by auto
    then obtain fs1 where w: "write_text fs q c = Inr fs1" using write_text_file_ok by blast
    have "\<exists>fs'. edit_loop sf c agents fs1 = (None, fs')"
    proof (rule Cons.IH)
      fix a p assume ap: "a \<in> set agents" "map_of sf a = Some p"
      then obtain y where y: "stat fs p = Inr (File y)" using Cons.prems [of a p] by auto
      show "\<exists>x. stat fs1 p = Inr (File x)"
        using write_text_file [OF w y] .
    qed
    then show ?thesis using Some w by simp
  qed
qed

lemma edit_skill_unfold:
  assumes "validate_description env n = []"
    and "check_if_skill_exist env fs n pl = sf"
    and "sf \<noteq> []"
    and "first_skill_file sf (map fst sf) = Some p0"
  shows "edit_skill env fs n d pl =
     (case read_text fs p0 of
        Inl e \<Rightarrow> (Inl e, fs)
      | Inr c0 \<Rightarrow>
          (case re_sub (compile_repl env) (replacement d) c0 of
             Inl e \<Rightarrow> (Inl e, fs)
           | Inr edited \<Rightarrow>
               (case edit_loop sf edited (map fst sf) fs of
                  (Some e, fs') \<Rightarrow> (Inl e, fs')
                | (None, fs') \<Rightarrow> (Inr True, fs'))))"
  using assms by (simp add: edit_skill_def Let_def)

lemma edit_skill_success:
  assumes "edit_skill env fs n d pl = (Inr True, fs')"
  shows "\<exists>a0 p0 rest c0 edited.
           check_if_skill_exist env fs n pl = (a0, p0) # rest \<and>
           read_text fs p0 = Inr c0 \<and>
           re_sub (compile_repl env) (replacement d) c0 = Inr edited \<and>
           (\<forall>(a, p) \<in> set (check_if_skill_exist env fs n pl). stat fs' p = Inr (File edited))"
proof -
  define sf where "sf = check_if_skill_exist env fs n pl"
  have v: "validate_description env n = []"
    using assms by (simp add: edit_skill_def split: if_splits)
  have ne: "sf \<noteq> []"
    using assms v by (simp add: edit_skill_def sf_def Let_def split: if_splits)
  then obtain a0 p0 rest where sf: "sf = (a0, p0) # rest"
    by (cases sf) auto
  have f: "first_skill_file sf (map fst sf) = Some p0"
    by (simp add: sf)
  note u = edit_skill_unfold [OF v sf_def [symmetric] ne f, of d]
  obtain c0 where c0: "read_text fs p0 = Inr c0"
    using assms by (cases "read_text fs p0") (simp_all add: u)
  obtain edited where ed: "re_sub (compile_repl env) (replacement d) c0 = Inr edited"
    using assms by (cases "re_sub (compile_repl env) (replacement d) c0") (simp_all add: u c0)
  have loop: "edit_loop sf edited (map fst sf) fs = (None, fs')"
    using assms by (simp add: u c0 ed split: prod.splits option.splits)
  have "\<forall>(a, p) \<in> set sf. stat fs' p = Inr (File edited)"
  proof safe
    fix a p assume ap: "(a, p) \<in> set sf"
    then have "map_of sf a = Some p" unfolding sf_def by (rule check_map_of)
    moreover have "a \<in> set (map fst sf)" using ap by force
    ultimately show "stat fs' p = Inr (File edited)"
      using edit_loop_written [OF loop] by simp
  qed
  then show ?thesis using sf c0 ed unfolding sf_def by blast
qed

lemma edit_skill_total:
  assumes "validate_description env n = []"
    and "check_if_skill_exist env fs n pl = (a0, p0) # rest"
    and "\<forall>(a, p) \<in> set (check_if_skill_exist env fs n pl). \<exists>x. read_text fs p = Inr x"
    and "read_text fs p0 = Inr c0"
    and "re_sub (compile_repl env) (replacement d) c0 = Inr edited"
  shows "\<exists>fs'. edit_skill env fs n d pl = (Inr True, fs')"
proof -
  define sf where "sf = check_if_skill_exist env fs n pl"
  have sf: "sf = (a0, p0) # rest" by (simp add: sf_def assms(2))
  then have ne: "sf \<noteq> []" by simp
  have f: "first_skill_file sf (map fst sf) = Some p0"
    by (simp add: sf)
  have "\<exists>fs'. edit_loop sf edited (map fst sf) fs = (None, fs')"
  proof (rule edit_loop_total)
    fix a p assume "a \<in> set (map fst sf)" "map_of sf a = Some p"
    then have "(a, p) \<in> set sf" by (simp add: map_of_SomeD)
    then have "\<exists>x. read_text fs p = Inr x"
      using assms(3) unfolding sf_def [symmetric] by auto
    then show "\<exists>x. stat fs p = Inr (File x)"
      by (simp add: read_text_file)
  qed
  then obtain fs' where "edit_loop sf edited (map fst sf) fs = (None, fs')"
    by blast
  then have "edit_skill env fs n d pl = (Inr True, fs')"
    by (simp add: edit_skill_unfold [OF assms(1) sf_def [symmetric] ne f] assms(4,5))
  then show ?thesis by blast
qed

section \<open>Which exceptions can be raised\<close>

lemma walk_error: "walk fs cur p = Inl e \<Longrightarrow> os_error e"
  by (induction p arbitrary: cur)
     (auto simp: os_error_def split: option.splits node.splits if_splits)

lemma locate_error: "locate fs p = Inl e \<Longrightarrow> os_error e"
  by (auto simp: locate_def os_error_def split: sum.splits option.splits dest: walk_error)

lemma stat_error: "stat fs p = Inl e \<Longrightarrow> os_error e"
  by (auto simp: stat_def split: sum.splits dest: locate_error)

lemma os_mkdir_error: "os_mkdir fs p = Inl e \<Longrightarrow> os_error e"
  by (auto simp: os_mkdir_def os_error_def
           split: if_splits sum.splits node.splits option.splits prod.splits
           dest: locate_error)

lemma mkdir_exist_ok_error: "mkdir_exist_ok fs p = (Some e, fs') \<Longrightarrow> os_error e"
  by (auto simp: mkdir_exist_ok_def split: sum.splits if_splits dest: os_mkdir_error)

lemma mkdir_error: "mkdir fs p = (Some e, fs') \<Longrightarrow> os_error e"
proof (induction fs p arbitrary: e fs' rule: mkdir.induct)
  case (1 fs p)
  show ?case
  proof (cases "os_mkdir fs p")
    case (Inr fs1)
    then show ?thesis using "1.prems" by (subst (asm) mkdir.simps) simp
  next
    case (Inl e0)
    then have e0: "os_error e0" by (rule os_mkdir_error)
    show ?thesis
    proof (cases "e0 = FileNotFoundError \<and> p \<noteq> []")
      case False
      then show ?thesis using "1.prems" Inl e0
        by (subst (asm) mkdir.simps) (auto split: if_splits)
    next
      case True
      obtain r1 fs1 where m: "mkdir fs (parent p) = (r1, fs1)" by (cases "mkdir fs (parent p)")
      show ?thesis
      proof (cases r1)
        case None
        then have "mkdir_exist_ok fs1 p = (Some e, fs')"
          using "1.prems" Inl True m by (subst (asm) mkdir.simps) simp
        then show ?thesis by (rule mkdir_exist_ok_error)
      next
        case (Some e1)
        then have "e = e1"
          using "1.prems" Inl True m by (subst (asm) mkdir.simps) simp
        then show ?thesis using "1.IH" [OF Inl _ _ m [unfolded Some]] True by simp
      qed
    qed
  qed
qed

lemma write_text_error: "write_text fs p c = Inl e \<Longrightarrow> os_error e"
  by (auto simp: write_text_def os_error_def
           split: if_splits sum.splits node.splits option.splits prod.splits
           dest: locate_error)

lemma read_text_error: "read_text fs p = Inl e \<Longrightarrow> os_error e"
  by (auto simp: read_text_def os_error_def split: sum.splits node.splits dest: stat_error)

lemma skill_dir_error: "skill_dir env n pl a = Inl e \<Longrightarrow> e = AttributeError"
  by (auto simp: skill_dir_def base_path_def split: sum.splits if_splits option.splits)

lemma re_sub_error: "re_sub cr repl c = Inl e \<Longrightarrow> \<exists>msg. e = TemplateError msg"
  by (auto simp: re_sub_def split: sum.splits option.splits if_splits)

lemma create_loop_error:
  "create_loop env n d pl agents acc fs = (Inl e, fs') \<Longrightarrow> os_error e \<or> e = AttributeError"
proof (induction agents arbitrary: acc fs)
  case Nil
  then show ?case by simp
next
  case (Cons a agents)
  show ?case
  proof (cases "skill_dir env n pl a")
    case (Inl e0)
    then show ?thesis using Cons.prems skill_dir_error by auto
  next
    case (Inr dir)
    obtain r1 fs1 where m: "mkdir fs dir = (r1, fs1)" by (cases "mkdir fs dir")
    show ?thesis
    proof (cases r1)
      case (Some e1)
      then show ?thesis using Cons.prems Inr m mkdir_error by auto
    next
      case None
      show ?thesis
      proof (cases "write_text fs1 (skill_md dir) (build_skill_instructions_template env n d)")
        case (Inl e2)
        then show ?thesis using Cons.prems Inr m None write_text_error by auto
      next
        case (Inr fs2)
        then show ?thesis using Cons.prems \<open>skill_dir env n pl a = Inr dir\<close> m None Cons.IH
          by (auto simp: Let_def)
      qed
    qed
  qed
qed

lemma edit_loop_error: "edit_loop sf c agents fs = (Some e, fs') \<Longrightarrow> os_error e"
proof (induction agents arbitrary: fs)
  case Nil
  then show ?case by simp
next
  case (Cons a agents)
  then show ?case
    by (auto split: option.splits sum.splits dest: write_text_error)
qed

lemma os_error_not_validation [simp]: "\<not> os_error (ValidationError m es)"
  by (simp add: os_error_def)

lemma create_skill_validation_error:
  "create_skill env fs n d pl = (Inl (ValidationError m es), fs') \<longleftrightarrow>
     m = ''Invalid skill name'' \<and> fs' = fs \<and> es \<noteq> [] \<and>
     (if validate_name env n \<noteq> [] then es = validate_name env n
      else es = validate_description env n)"
proof (cases "validate_name env n \<noteq> [] \<or> validate_description env n \<noteq> []")
  case True
  then show ?thesis by (auto simp: create_skill_def invalid_def)
next
  case False
  have "create_skill env fs n d pl \<noteq> (Inl (ValidationError m es), fs')"
  proof (cases "check_if_skill_exist env fs n pl = []")
    case True
    then have "create_skill env fs n d pl =
        create_loop env n d pl (map fst (get_local_supporting_agents env)) [] fs"
      using False by (simp add: create_skill_def)
    then show ?thesis using create_loop_error [of env n d pl _ "[]" fs "ValidationError m es" fs']
      by auto
  next
    case False
    then show ?thesis using \<open>\<not> (validate_name env n \<noteq> [] \<or> validate_description env n \<noteq> [])\<close>
      by (simp add: create_skill_def)
  qed
  then show ?thesis using False by auto
qed

lemma edit_skill_validation_error:
  "edit_skill env fs n d pl = (Inl (ValidationError m es), fs') \<longleftrightarrow>
     m = ''Invalid skill name'' \<and> fs' = fs \<and> es \<noteq> [] \<and> es = validate_description env n"
proof (cases "validate_description env n \<noteq> []")
  case True
  then show ?thesis by (auto simp: edit_skill_def invalid_def)
next
  case False
  then have v: "validate_description env n = []" by simp
  define sf where "sf = check_if_skill_exist env fs n pl"
  have "edit_skill env fs n d pl \<noteq> (Inl (ValidationError m es), fs')"
  proof (cases sf)
    case Nil
    then show ?thesis using v by (simp add: edit_skill_def sf_def [symmetric] not_found_def)
  next
    case (Cons ap rest)
    obtain a0 p0 where ap: "ap = (a0, p0)" by (cases ap)
    have ne: "sf \<noteq> []" and f: "first_skill_file sf (map fst sf) = Some p0"
      using Cons ap by simp_all
    note u = edit_skill_unfold [OF v sf_def [symmetric] ne f, of d]
    show ?thesis
    proof (cases "read_text fs p0")
      case (Inl e)
      then show ?thesis using read_text_error [OF Inl] by (auto simp: u)
    next
      case (Inr c0)
      show ?thesis
      proof (cases "re_sub (compile_repl env) (replacement d) c0")
        case (Inl e)
        then show ?thesis using re_sub_error [OF Inl] Inr by (auto simp: u)
      next
        case ed: (Inr edited)
        obtain r fs1 where l: "edit_loop sf edited (map fst sf) fs = (r, fs1)"
          by (cases "edit_loop sf edited (map fst sf) fs")
        show ?thesis
        proof (cases r)
          case None
          then show ?thesis using Inr ed l by (simp add: u)
        next
          case (Some e)
          then have "os_error e" using l edit_loop_error by blast
          then show ?thesis using Inr ed l Some by (auto simp: u)
        qed
      qed
    qed
  qed
  then show ?thesis using False by auto
qed

section \<open>Properties of creation\<close>

lemma create_loop_step:
  assumes "skill_dir env n pl a = Inr dir"
    and "mkdir fs dir = (None, fs1)"
    and "write_text fs1 (skill_md dir) (build_skill_instructions_template env n d) = Inr fs2"
  shows "create_loop env n d pl (a # agents) acc fs =
           create_loop env n d pl agents (AList.update a (SkillInfo a (skill_md dir)) acc) fs2"
  using assms by (simp add: Let_def)

lemma create_loop_Inr_step:
  assumes "create_loop env n d pl (a # agents) acc fs = (Inr m, fs')"
  obtains dir fs1 fs2 where "skill_dir env n pl a = Inr dir"
    and "mkdir fs dir = (None, fs1)"
    and "write_text fs1 (skill_md dir) (build_skill_instructions_template env n d) = Inr fs2"
    and "create_loop env n d pl agents (AList.update a (SkillInfo a (skill_md dir)) acc) fs2 = (Inr m, fs')"
proof -
  obtain dir where sd: "skill_dir env n pl a = Inr dir"
    using assms by (cases "skill_dir env n pl a") simp_all
  obtain r1 fs1 where m: "mkdir fs dir = (r1, fs1)" by (cases "mkdir fs dir")
  have r1: "r1 = None" using assms sd m by (cases r1) simp_all
  obtain fs2 where w: "write_text fs1 (skill_md dir) (build_skill_instructions_template env n d) = Inr fs2"
    using assms sd m r1
    by (cases "write_text fs1 (skill_md dir) (build_skill_instructions_template env n d)")
       (simp_all add: Let_def)
  have "create_loop env n d pl agents (AList.update a (SkillInfo a (skill_md dir)) acc) fs2 = (Inr m, fs')"
    using assms create_loop_step [OF sd m [unfolded r1] w] by simp
  then show ?thesis using that sd m r1 w by blast
qed

lemma create_loop_exists:
  "create_loop env n d pl agents acc fs = (Inr m, fs') \<Longrightarrow> exists fs p \<Longrightarrow> exists fs' p"
proof (induction agents arbitrary: acc fs)
  case Nil
  then show ?case by simp
next
  case (Cons a agents)
  from Cons.prems(1) obtain dir fs1 fs2 where s:
    "mkdir fs dir = (None, fs1)"
    "write_text fs1 (skill_md dir) (build_skill_instructions_template env n d) = Inr fs2"
    "create_loop env n d pl agents (AList.update a (SkillInfo a (skill_md dir)) acc) fs2 = (Inr m, fs')"
    by (rule create_loop_Inr_step)
  have "exists fs2 p"
    using write_text_exists [OF s(2)] mkdir_exists [OF s(1)] Cons.prems(2) by blast
  then show ?case using Cons.IH [OF s(3)] by blast
qed

lemma create_loop_creates:
  "create_loop env n d pl agents acc fs = (Inr m, fs') \<Longrightarrow> a \<in> set agents \<Longrightarrow>
   \<exists>dir. skill_dir env n pl a = Inr dir \<and> exists fs' (skill_md dir)"
proof (induction agents arbitrary: acc fs)
  case Nil
  then show ?case by simp
next
  case (Cons b agents)
  from Cons.prems(1) obtain dir fs1 fs2 where s:
    "skill_dir env n pl b = Inr dir"
    "mkdir fs dir = (None, fs1)"
    "write_text fs1 (skill_md dir) (build_skill_instructions_template env n d) = Inr fs2"
    "create_loop env n d pl agents (AList.update b (SkillInfo b (skill_md dir)) acc) fs2 = (Inr m, fs')"
    by (rule create_loop_Inr_step)
  show ?case
  proof (cases "a = b")
    case True
    have "exists fs2 (skill_md dir)"
      using write_text_same [OF s(3)] by (simp add: exists_stat)
    then have "exists fs' (skill_md dir)" using create_loop_exists [OF s(4)] by blast
    then show ?thesis using True s(1) by blast
  next
    case False
    then show ?thesis using Cons.IH [OF s(4)] Cons.prems(2) by simp
  qed
qed

lemma create_loop_result:
  "create_loop env n d pl agents acc fs = (Inr m, fs') \<Longrightarrow>
   (a \<in> set agents \<longrightarrow> (\<exists>dir. skill_dir env n pl a = Inr dir \<and>
                                map_of m a = Some (SkillInfo a (skill_md dir)))) \<and>
   (a \<notin> set agents \<longrightarrow> map_of m a = map_of acc a)"
proof (induction agents arbitrary: acc fs)
  case Nil
  then show ?case by simp
next
  case (Cons b agents)
  from Cons.prems(1) obtain dir fs1 fs2 where s:
    "skill_dir env n pl b = Inr dir"
    "create_loop env n d pl agents (AList.update b (SkillInfo b (skill_md dir)) acc) fs2 = (Inr m, fs')"
    by (rule create_loop_Inr_step)
  note ih = Cons.IH [OF s(2)]
  show ?case
  proof (cases "a \<in> set agents")
    case True
    then show ?thesis using ih by simp
  next
    case False
    then have "map_of m a = map_of (AList.update b (SkillInfo b (skill_md dir)) acc) a"
      using ih by simp
    then show ?thesis using False s(1) by (auto simp: update_conv')
  qed
qed

lemma check_after_create:
  assumes "create_loop env n d pl (map fst (get_local_supporting_agents env)) acc fs = (Inr m, fs')"
  shows "map_of (check_if_skill_exist env fs' n pl) a =
           (if a \<in> fst ` set (get_local_supporting_agents env)
            then map_option file_of (map_of m a) else None)"
proof (cases "a \<in> fst ` set (get_local_supporting_agents env)")
  case True
  then have a: "a \<in> set (map fst (get_local_supporting_agents env))" by simp
  obtain dir where d: "skill_dir env n pl a = Inr dir" "exists fs' (skill_md dir)"
    using create_loop_creates [OF assms a] by blast
  have m: "map_of m a = Some (SkillInfo a (skill_md dir))"
    using create_loop_result [OF assms, of a] a d(1) by simp
  have "(a, skill_md dir) \<in> set (check_if_skill_exist env fs' n pl)"
    using True d by (simp add: check_set)
  then have "map_of (check_if_skill_exist env fs' n pl) a = Some (skill_md dir)"
    by (rule check_map_of)
  then show ?thesis using True m by simp
next
  case False
  have "a \<notin> fst ` set (check_if_skill_exist env fs' n pl)"
  proof
    assume "a \<in> fst ` set (check_if_skill_exist env fs' n pl)"
    then obtain p where "(a, p) \<in> set (check_if_skill_exist env fs' n pl)" by force
    then have "a \<in> fst ` set (get_local_supporting_agents env)"
      unfolding check_set by (rule conjunct1)
    then show False using False by simp
  qed
  then have "map_of (check_if_skill_exist env fs' n pl) a = None"
    by (simp add: map_of_eq_None_iff)
  then show ?thesis using False by simp
qed

lemma create_skill_existing:
  assumes "validate_name env n = []" "validate_description env n = []"
    and "check_if_skill_exist env fs n pl \<noteq> []"
  shows "create_skill env fs n d pl =
           (Inr (map (\<lambda>(agent, p). (agent, SkillPath p)) (check_if_skill_exist env fs n pl)), fs)"
  using assms by (simp add: create_skill_def)

lemma create_skill_fresh:
  assumes "validate_name env n = []" "validate_description env n = []"
    and "check_if_skill_exist env fs n pl = []"
  shows "create_skill env fs n d pl =
           create_loop env n d pl (map fst (get_local_supporting_agents env)) [] fs"
  using assms by (simp add: create_skill_def)

lemma create_skill_Inr_valid:
  assumes "create_skill env fs n d pl = (Inr m, fs')"
  shows "validate_name env n = []" "validate_description env n = []"
  using assms by (auto simp: create_skill_def split: if_splits)

lemma create_skill_twice_aux:
  assumes "create_skill env fs n d pl = (Inr m1, fs1)"
  shows "\<exists>m2. create_skill env fs1 n d pl = (Inr m2, fs1) \<and>
           (\<forall>a. map_option file_of (map_of m2 a) = map_option file_of (map_of m1 a)) \<and>
           (m2 = m1 \<longleftrightarrow>
              check_if_skill_exist env fs n pl \<noteq> [] \<or> get_local_supporting_agents env = [])"
proof -
  note v = create_skill_Inr_valid [OF assms]
  show ?thesis
  proof (cases "check_if_skill_exist env fs n pl = []")
    case False
    then have "create_skill env fs n d pl =
        (Inr (map (\<lambda>(agent, p). (agent, SkillPath p)) (check_if_skill_exist env fs n pl)), fs)"
      using v by (rule_tac create_skill_existing)
    then have "fs1 = fs" "create_skill env fs1 n d pl = (Inr m1, fs1)"
      using assms by simp_all
    then show ?thesis using False by simp
  next
    case True
    define keys where "keys = map fst (get_local_supporting_agents env)"
    have loop: "create_loop env n d pl keys [] fs = (Inr m1, fs1)"
      using assms create_skill_fresh [OF v True] by (simp add: keys_def)
    show ?thesis
    proof (cases "get_local_supporting_agents env = []")
      case True
      then have "keys = []" by (simp add: keys_def)
      then have e: "m1 = []" "fs1 = fs" using loop by simp_all
      then have "create_skill env fs1 n d pl = (Inr m1, fs1)" using assms by simp
      then show ?thesis using True by simp
    next
      case False
      then obtain a0 where a0: "a0 \<in> fst ` set (get_local_supporting_agents env)"
        by (cases "get_local_supporting_agents env") auto
      define sf where "sf = check_if_skill_exist env fs1 n pl"
      have look: "map_of sf a =
           (if a \<in> fst ` set (get_local_supporting_agents env)
            then map_option file_of (map_of m1 a) else None)" for a
        unfolding sf_def using check_after_create [OF loop [unfolded keys_def]] .
      have m1: "\<exists>dir. map_of m1 a = Some (SkillInfo a (skill_md dir))"
        if "a \<in> fst ` set (get_local_supporting_agents env)" for a
        using create_loop_result [OF loop, of a] that by (auto simp: keys_def)
      have m1': "map_of m1 a = None" if "a \<notin> fst ` set (get_local_supporting_agents env)" for a
        using create_loop_result [OF loop, of a] that by (auto simp: keys_def)
      have "map_of sf a0 \<noteq> None" using look [of a0] a0 m1 [OF a0] by auto
      then have ne: "sf \<noteq> []" by auto
      define m2 where "m2 = map (\<lambda>(agent, p). (agent, SkillPath p)) sf"
      have second: "create_skill env fs1 n d pl = (Inr m2, fs1)"
        unfolding m2_def sf_def using v ne [unfolded sf_def] by (rule create_skill_existing)
      have m2: "map_of m2 a = map_option SkillPath (map_of sf a)" for a
        unfolding m2_def by (simp add: map_of_map)
      have same: "map_option file_of (map_of m2 a) = map_option file_of (map_of m1 a)" for a
      proof (cases "a \<in> fst ` set (get_local_supporting_agents env)")
        case True
        then show ?thesis using m2 [of a] look [of a] m1 [OF True] by auto
      next
        case False
        then show ?thesis using m2 [of a] look [of a] m1' [OF False] by simp
      qed
      have "map_of m2 a0 \<noteq> map_of m1 a0"
        using m2 [of a0] look [of a0] m1 [OF a0] a0 by auto
      then have "m2 \<noteq> m1" by auto
      then show ?thesis using second same True False by blast
    qed
  qed
qed

section \<open>Properties of deletion\<close>






lemma skill_md_snoc: "skill_md dir = dir @ [''SKILL.md'']"
  by (simp add: skill_md_def joinpath_def parse_parts_def)

lemma parent_skill_md [simp]: "parent (skill_md dir) = dir"
  by (simp add: skill_md_snoc parent_def)












section \<open>Properties of scope resolution and listing\<close>

lemma skill_dir_Inr:
  assumes "skill_dir env n pl a = Inr dir"
    and "a \<in> fst ` set (get_local_supporting_agents env)"
  shows "\<exists>info. map_of (get_local_supporting_agents env) a = Some info \<and>
           dir = joinpath (if pl then cwd env else resolve (cwd env) (config_dir info))
                   (''.'' @ a @ ''/skills/'' @ n)"
proof -
  have "map_of (get_local_supporting_agents env) a \<noteq> None"
    using assms(2) by (simp add: map_of_eq_None_iff)
  then obtain info where i: "map_of (get_local_supporting_agents env) a = Some info"
    by blast
  then have "base_path env pl a = Inr (if pl then cwd env else resolve (cwd env) (config_dir info))"
    by (simp add: base_path_def)
  then have "dir = joinpath (if pl then cwd env else resolve (cwd env) (config_dir info))
                   (''.'' @ a @ ''/skills/'' @ n)"
    using assms(1) unfolding skill_dir_def by simp
  then show ?thesis using i by blast
qed

lemma list_loop_entries:
  "list_loop env fs base agents acc = Inr skills \<Longrightarrow>
   \<exists>new. skills = acc @ new \<and>
     list_all2 (\<lambda>supported (nm, dirs). nm = name supported \<and>
        (\<exists>entries. iterdir fs (collapse [] (base @ parse_parts (skills_dir supported))) = Inr entries \<and>
                   dirs = filter (is_dir fs) entries)) agents new"
proof (induction agents arbitrary: acc)
  case Nil
  then show ?case by simp
next
  case (Cons s agents)
  define agent_path where "agent_path = collapse [] (base @ parse_parts (skills_dir s))"
  obtain entries where e: "iterdir fs agent_path = Inr entries"
    using Cons.prems by (cases "iterdir fs agent_path") (simp_all add: truthy_def agent_path_def)
  have "list_loop env fs base agents (acc @ [(name s, filter (is_dir fs) entries)]) = Inr skills"
    using Cons.prems e by (simp add: truthy_def agent_path_def)
  then obtain new where n: "skills = (acc @ [(name s, filter (is_dir fs) entries)]) @ new"
    "list_all2 (\<lambda>supported (nm, dirs). nm = name supported \<and>
        (\<exists>entries. iterdir fs (collapse [] (base @ parse_parts (skills_dir supported))) = Inr entries \<and>
                   dirs = filter (is_dir fs) entries)) agents new"
    using Cons.IH by blast
  have "skills = acc @ ((name s, filter (is_dir fs) entries) # new)"
    using n(1) by simp
  moreover have "list_all2 (\<lambda>supported (nm, dirs). nm = name supported \<and>
        (\<exists>entries. iterdir fs (collapse [] (base @ parse_parts (skills_dir supported))) = Inr entries \<and>
                   dirs = filter (is_dir fs) entries)) (s # agents) ((name s, filter (is_dir fs) entries) # new)"
    using n(2) e by (simp add: agent_path_def)
  ultimately show ?case by blast
qed

section \<open>Validation comes first\<close>

text \<open>
  C4. For every name that fails name validation, \<^verbatim>\<open>create_skill\<close> raises a
  \<open>ValidationError\<close> that carries the list of violations, and the file system is left
  exactly as it was: no directory is created and no file is written.
\<close>

theorem create_skill_invalid_name:
  "validate_name env skill_name \<noteq> [] \<Longrightarrow>
   create_skill env fs skill_name skill_description project_level =
     (Inl (ValidationError ''Invalid skill name'' (validate_name env skill_name)), fs)"
  by (simp add: create_skill_def invalid_def)

theorem create_skill_invalid_name_witness:
  "validate_name demo_env ''a/b'' \<noteq> [] \<and>
   create_skill demo_env demo_fs ''a/b'' ''Does things'' True =
     (Inl (ValidationError ''Invalid skill name''
             [''name must be non-empty without separators'']), demo_fs)"
proof -
  have h: "validate_name demo_env ''a/b'' \<noteq> []"
    by code_simp
  have v: "validate_name demo_env ''a/b'' = [''name must be non-empty without separators'']"
    by code_simp
  show ?thesis
    using h create_skill_invalid_name [OF h, of demo_fs "''Does things''" True] v by simp
qed

section \<open>Operations on a skill that does not exist\<close>

text \<open>
  C7, as stated, fails for \<^verbatim>\<open>edit_skill\<close>: the resolver finds no file for the empty
  name, and \<^verbatim>\<open>edit_skill\<close> raises a \<open>ValidationError\<close>, not a \<open>SkillError\<close>, because
  line 60 validates before line 63 resolves.
\<close>

theorem edit_skill_not_found_counterexample:
  "check_if_skill_exist demo_env demo_fs [] True = [] \<and>
   edit_skill demo_env demo_fs [] (Some ''new'') True =
     (Inl (ValidationError ''Invalid skill name'' [''description must be non-empty'']), demo_fs)"
  by code_simp

text \<open>
  C7, amended. For every name for which the resolver returns no files in the given
  scope, \<^verbatim>\<open>delete_skill\<close> raises the not-found \<open>SkillError\<close>, and so does \<^verbatim>\<open>edit_skill\<close>
  when the name passes the description validator; when it does not, \<^verbatim>\<open>edit_skill\<close>
  raises the \<open>ValidationError\<close>. In every case the file system is left as it was.
\<close>

theorem edit_delete_not_found:
  "check_if_skill_exist env fs skill_name project_level = [] \<Longrightarrow>
   delete_skill env fs skill_name project_level =
     (Inl (SkillError (''Skill '' @ skill_name @ '', not found.'')), fs) \<and>
   edit_skill env fs skill_name description project_level =
     (if validate_description env skill_name = []
      then (Inl (SkillError (''Skill '' @ skill_name @ '', not found.'')), fs)
      else (Inl (ValidationError ''Invalid skill name'' (validate_description env skill_name)), fs))"
  by (simp add: delete_skill_def edit_skill_def invalid_def not_found_def)

theorem edit_delete_not_found_witness:
  "check_if_skill_exist demo_env demo_fs ''demo'' True = [] \<and>
   delete_skill demo_env demo_fs ''demo'' True =
     (Inl (SkillError ''Skill demo, not found.''), demo_fs) \<and>
   edit_skill demo_env demo_fs ''demo'' (Some ''new'') True =
     (Inl (SkillError ''Skill demo, not found.''), demo_fs)"
proof -
  have h: "check_if_skill_exist demo_env demo_fs ''demo'' True = []"
    by code_simp
  have v: "validate_description demo_env ''demo'' = []"
    by code_simp
  show ?thesis
    using h v edit_delete_not_found [OF h, of "Some ''new''"] by simp
qed

section \<open>Listing\<close>

text \<open>
  C1 says that \<^verbatim>\<open>list_skills\<close> skips an agent whose skills directory does not exist.
  The guard of line 125 is meant to do that, but it tests a \<^verbatim>\<open>Path\<close> object, which is
  always truthy, so \<^verbatim>\<open>iterdir\<close> runs on the missing directory and raises. In the first
  file system the second agent has no skills directory and the whole call raises
  \<open>FileNotFoundError\<close>; in the second one that directory exists and is empty, and the
  agent has an entry with the empty sequence.
\<close>

theorem list_skills_missing_directory_raises:
  "list_skills demo_env (demo_fs_skill (demo_template ''demo'' ''Does things'')) True =
     Inl FileNotFoundError \<and>
   list_skills demo_env demo_fs_dirs True =
     Inr [(''claude'', [[''work'', ''proj'', ''.claude'', ''skills'', ''demo'']]),
          (''codex'', [])]"
  by code_simp

section \<open>Editing the description line\<close>

text \<open>
  C5 says that only the first line matching \<^verbatim>\<open>description: <anything>\<close> is replaced.
  In the pattern of line 73, \<^verbatim>\<open>\s*\<close> also matches newlines, so when nothing but
  whitespace follows \<^verbatim>\<open>description:\<close> on its line the match runs on through the next
  non-blank line, and that line is replaced too. Here the closing \<^verbatim>\<open>---\<close> line of the
  file is lost.
\<close>

theorem edit_skill_replaces_following_line:
  "edit_skill demo_env
     (demo_fs_skill ''---\<newline>name: demo\<newline>description:\<newline>---\<newline>Body\<newline>'')
     ''demo'' (Some ''new'') True =
   (Inr True, demo_fs_skill ''---\<newline>name: demo\<newline>description: new\<newline>Body\<newline>'')"
  by code_simp

section \<open>The description validator is applied to the name\<close>

text \<open>
  C3. In \<^verbatim>\<open>create_skill\<close> and in \<^verbatim>\<open>edit_skill\<close> the description validator is called with
  the skill name. So whether either operation raises a \<open>ValidationError\<close>, and with
  which violations, is decided by the name alone: the description, the scope and the
  file system do not occur on the right-hand sides.
\<close>

theorem description_validation_uses_name:
  "(create_skill env fs skill_name skill_description project_level =
      (Inl (ValidationError m es), fs') \<longleftrightarrow>
    m = ''Invalid skill name'' \<and> fs' = fs \<and> es \<noteq> [] \<and>
    (if validate_name env skill_name \<noteq> [] then es = validate_name env skill_name
     else es = validate_description env skill_name)) \<and>
   (edit_skill env fs skill_name description project_level =
      (Inl (ValidationError m es), fs') \<longleftrightarrow>
    m = ''Invalid skill name'' \<and> fs' = fs \<and> es \<noteq> [] \<and>
    es = validate_description env skill_name)"
  using create_skill_validation_error edit_skill_validation_error by simp

theorem description_validation_uses_name_witness:
  "create_skill demo_env demo_fs ''a-skill-with-a-very-long-name'' ''Short'' True =
     (Inl (ValidationError ''Invalid skill name'' [''description is too long'']), demo_fs) \<and>
   edit_skill demo_env demo_fs ''a-skill-with-a-very-long-name'' (Some ''Short'') True =
     (Inl (ValidationError ''Invalid skill name'' [''description is too long'']), demo_fs)"
proof -
  have n: "validate_name demo_env ''a-skill-with-a-very-long-name'' = []"
    by code_simp
  have d: "validate_description demo_env ''a-skill-with-a-very-long-name'' =
             [''description is too long'']"
    by code_simp
  show ?thesis
    using description_validation_uses_name
      [of demo_env demo_fs "''a-skill-with-a-very-long-name''" "''Short''" True
          "''Invalid skill name''" "[''description is too long'']" demo_fs "Some ''Short''"]
    by (simp add: n d)
qed

section \<open>Editing writes one content to every agent\<close>

text \<open>
  C6. When the skill resolves to regular files, \<^verbatim>\<open>edit_skill\<close> reads the file of the
  first agent of the resolved mapping, substitutes in that text, and returns \<^verbatim>\<open>True\<close>
  with every agent's resolved file holding exactly the edited text, whatever it held
  before (read back, it is that text with its line endings translated).
\<close>

theorem edit_skill_broadcast:
  assumes "validate_description env skill_name = []"
    and "check_if_skill_exist env fs skill_name project_level = (agent, skill_file) # rest"
    and "\<forall>(a, p) \<in> set (check_if_skill_exist env fs skill_name project_level).
           \<exists>x. read_text fs p = Inr x"
    and "read_text fs skill_file = Inr initial_content"
    and "re_sub (compile_repl env) (replacement description) initial_content = Inr edited_content"
  shows "\<exists>fs'. edit_skill env fs skill_name description project_level = (Inr True, fs') \<and>
           (\<forall>(a, p) \<in> set (check_if_skill_exist env fs skill_name project_level).
              stat fs' p = Inr (File edited_content) \<and>
              read_text fs' p = Inr (universal_newlines edited_content))"
proof -
  obtain fs' where e: "edit_skill env fs skill_name description project_level = (Inr True, fs')"
    using edit_skill_total [OF assms] by blast
  obtain a0 p0 rest0 c0 edited where s:
    "check_if_skill_exist env fs skill_name project_level = (a0, p0) # rest0"
    "read_text fs p0 = Inr c0"
    "re_sub (compile_repl env) (replacement description) c0 = Inr edited"
    "\<forall>(a, p) \<in> set (check_if_skill_exist env fs skill_name project_level).
       stat fs' p = Inr (File edited)"
    using edit_skill_success [OF e] by blast
  have "p0 = skill_file" using s(1) assms(2) by simp
  then have "c0 = initial_content" using s(2) assms(4) by simp
  then have "edited = edited_content" using s(3) assms(5) by simp
  then have "\<forall>(a, p) \<in> set (check_if_skill_exist env fs skill_name project_level).
              stat fs' p = Inr (File edited_content) \<and>
              read_text fs' p = Inr (universal_newlines edited_content)"
    using s(4) by (auto simp: read_text_stat)
  then show ?thesis using e by blast
qed

theorem edit_skill_broadcast_witness:
  "stat (snd (edit_skill demo_env
       (demo_fs_two (demo_template ''demo'' ''First'') ''Second, without the line'')
       ''demo'' (Some ''New'') True))
     [''work'', ''proj'', ''.codex'', ''skills'', ''demo'', ''SKILL.md''] =
   Inr (File (demo_template ''demo'' ''New''))"
proof -
  define fs where "fs = demo_fs_two (demo_template ''demo'' ''First'') ''Second, without the line''"
  define p1 where "p1 = [''work'', ''proj'', ''.claude'', ''skills'', ''demo'', ''SKILL.md'']"
  define p2 where "p2 = [''work'', ''proj'', ''.codex'', ''skills'', ''demo'', ''SKILL.md'']"
  have v: "validate_description demo_env ''demo'' = []"
    by code_simp
  have c: "check_if_skill_exist demo_env fs ''demo'' True = (''claude'', p1) # [(''codex'', p2)]"
    unfolding fs_def p1_def p2_def by code_simp
  have r1: "read_text fs p1 = Inr (demo_template ''demo'' ''First'')"
    unfolding fs_def p1_def by code_simp
  have r2: "read_text fs p2 = Inr ''Second, without the line''"
    unfolding fs_def p2_def by code_simp
  have a: "\<forall>(a, p) \<in> set (check_if_skill_exist demo_env fs ''demo'' True).
             \<exists>x. read_text fs p = Inr x"
    unfolding c by (simp add: r1 r2)
  have s: "re_sub (compile_repl demo_env) (replacement (Some ''New''))
             (demo_template ''demo'' ''First'') = Inr (demo_template ''demo'' ''New'')"
    by code_simp
  obtain fs' where e: "edit_skill demo_env fs ''demo'' (Some ''New'') True = (Inr True, fs')"
    and w: "\<forall>(a, p) \<in> set (check_if_skill_exist demo_env fs ''demo'' True).
              stat fs' p = Inr (File (demo_template ''demo'' ''New'')) \<and>
              read_text fs' p = Inr (universal_newlines (demo_template ''demo'' ''New''))"
    using edit_skill_broadcast [OF v c a r1 s] by blast
  have "stat fs' p2 = Inr (File (demo_template ''demo'' ''New''))"
    using w unfolding c by simp
  then show ?thesis
    using e unfolding fs_def p2_def by simp
qed

section \<open>Editing without a description\<close>




section \<open>Creating a skill twice\<close>

text \<open>
  C2, as stated, fails: the first call creates the files and returns the dicts
  \<^verbatim>\<open>{'agent': agent, 'file': skill_file}\<close> of line 43, the second call returns the
  mapping of the resolver, whose values are paths. The two results and their inequality:
\<close>

theorem create_skill_twice_counterexample:
  "create_skill demo_env demo_fs ''demo'' ''Does things'' True =
     (Inr [(''claude'', SkillInfo ''claude''
              [''work'', ''proj'', ''.claude'', ''skills'', ''demo'', ''SKILL.md'']),
           (''codex'', SkillInfo ''codex''
              [''work'', ''proj'', ''.codex'', ''skills'', ''demo'', ''SKILL.md''])],
      demo_fs_two (demo_template ''demo'' ''Does things'') (demo_template ''demo'' ''Does things'')) \<and>
   create_skill demo_env
       (demo_fs_two (demo_template ''demo'' ''Does things'') (demo_template ''demo'' ''Does things''))
       ''demo'' ''Does things'' True =
     (Inr [(''claude'', SkillPath
              [''work'', ''proj'', ''.claude'', ''skills'', ''demo'', ''SKILL.md'']),
           (''codex'', SkillPath
              [''work'', ''proj'', ''.codex'', ''skills'', ''demo'', ''SKILL.md''])],
      demo_fs_two (demo_template ''demo'' ''Does things'') (demo_template ''demo'' ''Does things'')) \<and>
   fst (create_skill demo_env demo_fs ''demo'' ''Does things'' True) \<noteq>
   fst (create_skill demo_env
          (snd (create_skill demo_env demo_fs ''demo'' ''Does things'' True))
          ''demo'' ''Does things'' True)"
  by code_simp

text \<open>
  C2, amended. When a call of \<^verbatim>\<open>create_skill\<close> returns, a second call with the same name,
  description and scope returns too and leaves the file system as the first call left
  it (it writes nothing). Both returned mappings have the same agents and, for each
  agent, the same file path. They are identical exactly when the skill already existed
  before the first call or no agent is registered; otherwise the first has the dicts of
  line 43 as values and the second has the paths.
\<close>

theorem create_skill_twice:
  assumes "create_skill env fs skill_name skill_description project_level = (Inr m1, fs1)"
  shows "\<exists>m2. create_skill env fs1 skill_name skill_description project_level = (Inr m2, fs1) \<and>
           (\<forall>a. map_option file_of (map_of m2 a) = map_option file_of (map_of m1 a)) \<and>
           (m2 = m1 \<longleftrightarrow>
              check_if_skill_exist env fs skill_name project_level \<noteq> [] \<or>
              get_local_supporting_agents env = [])"
  using assms by (rule create_skill_twice_aux)

theorem create_skill_twice_witness:
  "create_skill demo_env demo_fs ''demo'' ''Does things'' False =
     (Inr [(''claude'', SkillInfo ''claude''
              [''home'', ''user'', ''.claude'', ''skills'', ''demo'', ''SKILL.md'']),
           (''codex'', SkillInfo ''codex''
              [''work'', ''proj'', ''cfg'', ''.codex'', ''skills'', ''demo'', ''SKILL.md''])],
      snd (create_skill demo_env demo_fs ''demo'' ''Does things'' False)) \<and>
   snd (create_skill demo_env (snd (create_skill demo_env demo_fs ''demo'' ''Does things'' False))
          ''demo'' ''Does things'' False) =
   snd (create_skill demo_env demo_fs ''demo'' ''Does things'' False)"
proof -
  define m1 where "m1 =
     [(''claude'', SkillInfo ''claude''
              [''home'', ''user'', ''.claude'', ''skills'', ''demo'', ''SKILL.md'']),
      (''codex'', SkillInfo ''codex''
              [''work'', ''proj'', ''cfg'', ''.codex'', ''skills'', ''demo'', ''SKILL.md''])]"
  define fs1 where "fs1 = snd (create_skill demo_env demo_fs ''demo'' ''Does things'' False)"
  have "fst (create_skill demo_env demo_fs ''demo'' ''Does things'' False) = Inr m1"
    unfolding m1_def by code_simp
  then have h: "create_skill demo_env demo_fs ''demo'' ''Does things'' False = (Inr m1, fs1)"
    by (simp add: fs1_def prod_eq_iff)
  obtain m2 where "create_skill demo_env fs1 ''demo'' ''Does things'' False = (Inr m2, fs1)"
    using create_skill_twice [OF h] by blast
  then show ?thesis using h unfolding m1_def fs1_def by simp
qed

section \<open>Deleting\<close>




section \<open>Scope resolution\<close>

text \<open>
  C9. With \<^verbatim>\<open>project_level\<close> true the base root is the current directory. With
  \<^verbatim>\<open>project_level\<close> false, \<^verbatim>\<open>create_skill\<close> uses the configured directory of each agent,
  resolved to an absolute path, and \<^verbatim>\<open>list_skills\<close> uses the home directory. For
  \<^verbatim>\<open>create_skill\<close>: every entry of the mapping returned by a creation names the file
  under that root, and the file exists afterwards. For \<^verbatim>\<open>list_skills\<close>: the result has,
  for each registered agent in order, the subdirectories of the agent's skills
  directory under that root. For the resolver, through which \<^verbatim>\<open>edit_skill\<close> and
  \<^verbatim>\<open>delete_skill\<close> find their files: every path it reports is under the root of
  \<^verbatim>\<open>create_skill\<close>.
\<close>

theorem scope_base_root:
  "(create_skill env fs skill_name skill_description project_level = (Inr m, fs') \<and>
    check_if_skill_exist env fs skill_name project_level = [] \<and> map_of m a = Some v \<longrightarrow>
      (\<exists>info. map_of (get_local_supporting_agents env) a = Some info \<and>
         v = SkillInfo a (skill_md (joinpath
               (if project_level then cwd env else resolve (cwd env) (config_dir info))
               (''.'' @ a @ ''/skills/'' @ skill_name))) \<and>
         exists fs' (file_of v))) \<and>
   (list_skills env fs project_level = Inr skills \<longrightarrow>
      list_all2 (\<lambda>supported (nm, dirs). nm = name supported \<and>
        (\<exists>entries. iterdir fs (collapse []
                       ((if project_level then cwd env else home env) @
                        parse_parts (skills_dir supported))) = Inr entries \<and>
                   dirs = filter (is_dir fs) entries))
        (load_supporting_agents env) skills) \<and>
   ((a, p) \<in> set (check_if_skill_exist env fs skill_name project_level) \<longrightarrow>
      (\<exists>info. map_of (get_local_supporting_agents env) a = Some info \<and>
         p = skill_md (joinpath
               (if project_level then cwd env else resolve (cwd env) (config_dir info))
               (''.'' @ a @ ''/skills/'' @ skill_name))))"
proof (intro conjI impI)
  assume h: "create_skill env fs skill_name skill_description project_level = (Inr m, fs') \<and>
    check_if_skill_exist env fs skill_name project_level = [] \<and> map_of m a = Some v"
  note v = create_skill_Inr_valid [OF h [THEN conjunct1]]
  have c0: "check_if_skill_exist env fs skill_name project_level = []"
    using h by simp
  have loop: "create_loop env skill_name skill_description project_level
                (map fst (get_local_supporting_agents env)) [] fs = (Inr m, fs')"
    using h unfolding create_skill_fresh [OF v c0] by simp
  have a: "a \<in> set (map fst (get_local_supporting_agents env))"
    using create_loop_result [OF loop, of a] h by auto
  then obtain dir where d: "skill_dir env skill_name project_level a = Inr dir"
    "map_of m a = Some (SkillInfo a (skill_md dir))"
    using create_loop_result [OF loop, of a] by blast
  have e: "exists fs' (skill_md dir)"
    using create_loop_creates [OF loop a] d(1) by simp
  obtain info where i: "map_of (get_local_supporting_agents env) a = Some info"
    "dir = joinpath (if project_level then cwd env else resolve (cwd env) (config_dir info))
                   (''.'' @ a @ ''/skills/'' @ skill_name)"
    using skill_dir_Inr [OF d(1)] a by auto
  have "v = SkillInfo a (skill_md dir)" using d(2) h by simp
  then show "\<exists>info. map_of (get_local_supporting_agents env) a = Some info \<and>
         v = SkillInfo a (skill_md (joinpath
               (if project_level then cwd env else resolve (cwd env) (config_dir info))
               (''.'' @ a @ ''/skills/'' @ skill_name))) \<and>
         exists fs' (file_of v)"
    using i e by (intro exI [of _ info]) simp
next
  assume "list_skills env fs project_level = Inr skills"
  then have "list_loop env fs (if project_level then cwd env else home env)
               (load_supporting_agents env) [] = Inr skills"
    by (simp add: list_skills_def)
  from list_loop_entries [OF this]
  show "list_all2 (\<lambda>supported (nm, dirs). nm = name supported \<and>
        (\<exists>entries. iterdir fs (collapse []
                       ((if project_level then cwd env else home env) @
                        parse_parts (skills_dir supported))) = Inr entries \<and>
                   dirs = filter (is_dir fs) entries))
        (load_supporting_agents env) skills"
    by simp
next
  assume "(a, p) \<in> set (check_if_skill_exist env fs skill_name project_level)"
  then obtain dir where d: "a \<in> fst ` set (get_local_supporting_agents env)"
    "skill_dir env skill_name project_level a = Inr dir" "p = skill_md dir"
    unfolding check_set by blast
  obtain info where "map_of (get_local_supporting_agents env) a = Some info"
    "dir = joinpath (if project_level then cwd env else resolve (cwd env) (config_dir info))
                   (''.'' @ a @ ''/skills/'' @ skill_name)"
    using skill_dir_Inr [OF d(2,1)] by auto
  then show "\<exists>info. map_of (get_local_supporting_agents env) a = Some info \<and>
         p = skill_md (joinpath
               (if project_level then cwd env else resolve (cwd env) (config_dir info))
               (''.'' @ a @ ''/skills/'' @ skill_name))"
    using d(3) by (intro exI [of _ info]) simp
qed

theorem scope_base_root_witness:
  "exists (snd (create_skill demo_env demo_fs ''demo'' ''Does things'' False))
     [''work'', ''proj'', ''cfg'', ''.codex'', ''skills'', ''demo'', ''SKILL.md''] \<and>
   list_skills demo_env demo_fs_home False =
     Inr [(''claude'', [[''home'', ''user'', ''.claude'', ''skills'', ''demo'']]), (''codex'', [])] \<and>
   (\<exists>entries. iterdir demo_fs_home [''home'', ''user'', ''.claude'', ''skills''] = Inr entries \<and>
      [[''home'', ''user'', ''.claude'', ''skills'', ''demo'']] = filter (is_dir demo_fs_home) entries)"
proof -
  define m where "m =
     [(''claude'', SkillInfo ''claude''
              [''home'', ''user'', ''.claude'', ''skills'', ''demo'', ''SKILL.md'']),
      (''codex'', SkillInfo ''codex''
              [''work'', ''proj'', ''cfg'', ''.codex'', ''skills'', ''demo'', ''SKILL.md''])]"
  define fs' where "fs' = snd (create_skill demo_env demo_fs ''demo'' ''Does things'' False)"
  define v where "v = SkillInfo ''codex''
              [''work'', ''proj'', ''cfg'', ''.codex'', ''skills'', ''demo'', ''SKILL.md'']"
  have "fst (create_skill demo_env demo_fs ''demo'' ''Does things'' False) = Inr m"
    unfolding m_def by code_simp
  then have h1: "create_skill demo_env demo_fs ''demo'' ''Does things'' False = (Inr m, fs')"
    by (simp add: fs'_def prod_eq_iff)
  have h2: "check_if_skill_exist demo_env demo_fs ''demo'' False = []"
    by code_simp
  have h3: "map_of m ''codex'' = Some v"
    by (simp add: m_def v_def)
  have "exists fs' (file_of v)"
    using scope_base_root [of demo_env demo_fs "''demo''" "''Does things''" False m fs' "''codex''" v]
      h1 h2 h3 by blast
  then have create: "exists fs'
      [''work'', ''proj'', ''cfg'', ''.codex'', ''skills'', ''demo'', ''SKILL.md'']"
    by (simp add: v_def)
  define skills where "skills =
     [(''claude'', [[''home'', ''user'', ''.claude'', ''skills'', ''demo'']]), (''codex'', [] :: path list)]"
  have l: "list_skills demo_env demo_fs_home False = Inr skills"
    unfolding skills_def by code_simp
  have reg: "load_supporting_agents demo_env =
     [\<lparr>name = ''claude'', skills_dir = ''.claude/skills''\<rparr>,
      \<lparr>name = ''codex'', skills_dir = ''.codex/skills''\<rparr>]"
    by (simp add: demo_env_def)
  have pth: "collapse [] (home demo_env @ parse_parts ''.claude/skills'') =
               [''home'', ''user'', ''.claude'', ''skills'']"
    by code_simp
  have "list_all2 (\<lambda>supported (nm, dirs). nm = name supported \<and>
        (\<exists>entries. iterdir demo_fs_home (collapse []
                       ((if False then cwd demo_env else home demo_env) @
                        parse_parts (skills_dir supported))) = Inr entries \<and>
                   dirs = filter (is_dir demo_fs_home) entries))
        (load_supporting_agents demo_env) skills"
    using scope_base_root [of demo_env demo_fs_home _ _ False _ _ _ _ skills] l by blast
  then have "\<exists>entries. iterdir demo_fs_home [''home'', ''user'', ''.claude'', ''skills''] = Inr entries \<and>
      [[''home'', ''user'', ''.claude'', ''skills'', ''demo'']] = filter (is_dir demo_fs_home) entries"
    unfolding reg skills_def by (simp add: pth)
  then show ?thesis using create l unfolding fs'_def skills_def by simp
qed

end
